theory Spec2Isabelle
  imports
    Complex_Main
    "HOL-Library.AList"
    "HOL-Library.Char_ord"
    "HOL-Library.List_Lexorder"
    "HOL-Library.Option_ord"
begin

section \<open>Python notions shared by the sources\<close>

text \<open>
  Exceptions are values. The proxy in \<^verbatim>\<open>api/views.py\<close> tells three kinds apart
  (\<^verbatim>\<open>httpx.RequestError\<close>, \<^verbatim>\<open>httpx.StreamError\<close>, any other \<^verbatim>\<open>Exception\<close>); the
  string is \<^verbatim>\<open>str(e)\<close>. Floats (scores, clock readings) are modelled as exact
  rationals, strings as ASCII character lists.
\<close>

datatype exn = RequestError string | StreamError string | OtherException string

text \<open>The slice \<^verbatim>\<open>xs[i:]\<close>: a negative start counts from the end, and \<^verbatim>\<open>-0\<close> is \<^verbatim>\<open>0\<close>.\<close>

definition slice_from :: "int \<Rightarrow> 'a list \<Rightarrow> 'a list" where
  "slice_from i xs =
     (if i < 0 then drop (nat (int (length xs) + i)) xs else drop (nat i) xs)"

text \<open>
  \<^verbatim>\<open>sorted(xs, key=f, reverse=True)\<close>: descending by key and stable (elements with equal
  keys keep their order), which is a stable ascending sort of the reversed list, reversed.
\<close>

definition sorted_reverse :: "('a \<Rightarrow> 'k::linorder) \<Rightarrow> 'a list \<Rightarrow> 'a list" where
  "sorted_reverse f xs = rev (sort_key f (rev xs))"

text \<open>\<^verbatim>\<open>d.get(key, default)\<close> on a dictionary kept as an association list in insertion order;
  \<^verbatim>\<open>d[key] = v\<close> is \<^const>\<open>AList.update\<close> (a present key keeps its place, a new one goes last).\<close>

definition dict_get :: "('k \<times> 'v) list \<Rightarrow> 'k \<Rightarrow> 'v \<Rightarrow> 'v" where
  "dict_get d key dflt = (case map_of d key of None \<Rightarrow> dflt | Some v \<Rightarrow> v)"

section \<open>\<^verbatim>\<open>rag/rag.py\<close>: the tokenizer\<close>

text \<open>
  \<^verbatim>\<open>\w\<close> of Python's \<^verbatim>\<open>re\<close> on ASCII text: letters, digits and the underscore.
  \<^verbatim>\<open>str.lower()\<close> on ASCII text maps \<^verbatim>\<open>A-Z\<close> to \<^verbatim>\<open>a-z\<close>.
\<close>

definition is_word_char :: "char \<Rightarrow> bool" where
  "is_word_char c =
     (c \<in> set ''abcdefghijklmnopqrstuvwxyzABCDEFGHIJKLMNOPQRSTUVWXYZ0123456789_'')"

definition lower_char :: "char \<Rightarrow> char" where
  "lower_char c =
     (case map_of (zip ''ABCDEFGHIJKLMNOPQRSTUVWXYZ'' ''abcdefghijklmnopqrstuvwxyz'') c of
        None \<Rightarrow> c
      | Some l \<Rightarrow> l)"

definition lower :: "string \<Rightarrow> string" where
  "lower s = map lower_char s"

text \<open>
  \<^verbatim>\<open>re.split(r'\W+', s)\<close>: the pieces between the maximal runs of non-word characters,
  an empty piece included where the string starts or ends with such a run. The scanner
  carries the piece being read and whether it stands inside a run of separators.
\<close>

fun re_split_W :: "bool \<Rightarrow> string \<Rightarrow> string \<Rightarrow> string list" where
  "re_split_W in_sep cur [] = [cur]"
| "re_split_W in_sep cur (c # cs) =
     (if is_word_char c then re_split_W False (cur @ [c]) cs
      else if in_sep then re_split_W True cur cs
      else cur # re_split_W True [] cs)"

datatype py_value = PyStr string | PyNotStr

fun simple_tokenizer :: "py_value \<Rightarrow> string list" where
  "simple_tokenizer PyNotStr = []"
| "simple_tokenizer (PyStr s) = filter (\<lambda>token. token \<noteq> []) (re_split_W False [] (lower s))"

text \<open>
  The docstring of \<^verbatim>\<open>simple_tokenizer\<close> ("lowercase and split by non-alphanumeric
  characters"), written out: the same scanner, cutting at every character that is not a
  letter or a digit.
\<close>

definition is_alnum_char :: "char \<Rightarrow> bool" where
  "is_alnum_char c =
     (c \<in> set ''abcdefghijklmnopqrstuvwxyzABCDEFGHIJKLMNOPQRSTUVWXYZ0123456789'')"

fun split_non_alnum :: "bool \<Rightarrow> string \<Rightarrow> string \<Rightarrow> string list" where
  "split_non_alnum in_sep cur [] = [cur]"
| "split_non_alnum in_sep cur (c # cs) =
     (if is_alnum_char c then split_non_alnum False (cur @ [c]) cs
      else if in_sep then split_non_alnum True cur cs
      else cur # split_non_alnum True [] cs)"

definition docstring_tokenizer :: "string \<Rightarrow> string list" where
  "docstring_tokenizer s = filter (\<lambda>token. token \<noteq> []) (split_non_alnum False [] (lower s))"

section \<open>\<^verbatim>\<open>rag/rag.py\<close>: the state of a \<^verbatim>\<open>RAGBot\<close>\<close>

text \<open>
  A \<^verbatim>\<open>Document\<close> with the two metadata keys the code reads or writes
  (\<^verbatim>\<open>metadata['source']\<close>, \<^verbatim>\<open>metadata['rerank_score']\<close>; \<open>None\<close> is an absent key).
\<close>

record document =
  page_content :: string
  source :: "string option"
  rerank_score :: "rat option"

record turn =
  human :: string
  ai :: string

text \<open>
  The collaborators are functions that return or raise:
  \<^verbatim>\<open>vectorstore.similarity_search_with_score(query, k)\<close>, \<^verbatim>\<open>bm25_index.get_scores(tokens)\<close>
  (a numpy array of scores), \<^verbatim>\<open>reranker.predict(pairs)\<close>, and the constructor
  \<^verbatim>\<open>CrossEncoder(name, device)\<close> that \<^verbatim>\<open>load_reranker_model\<close> calls. \<open>None\<close> is Python's
  \<^verbatim>\<open>None\<close>. \<open>bot_k\<close> is \<^verbatim>\<open>self.k\<close>; \<open>llm_model\<close> and \<open>llm_tokenizer\<close> say whether the
  attribute is set.
\<close>

type_synonym cross_encoder = "(string \<times> string) list \<Rightarrow> exn + rat list"

record ragbot =
  vectorstore :: "(string \<Rightarrow> nat \<Rightarrow> exn + (document \<times> rat) list) option"
  bm25_index :: "(string list \<Rightarrow> exn + rat list) option"
  all_documents :: "document list"
  reranker_model :: "cross_encoder option"
  reranker_loader :: "exn + cross_encoder"
  over_retrieve_k :: nat
  bot_k :: nat
  conversation_history :: "turn list"
  max_history_length :: int
  llm_model :: bool
  llm_tokenizer :: bool

section \<open>\<^verbatim>\<open>RAGBot.add_to_history\<close>\<close>

definition add_to_history :: "ragbot \<Rightarrow> string \<Rightarrow> string \<Rightarrow> ragbot" where
  "add_to_history self user_input ai_response =
     (let appended = conversation_history self @ [\<lparr>human = user_input, ai = ai_response\<rparr>]
      in if int (length appended) > max_history_length self
         then self\<lparr>conversation_history := slice_from (- max_history_length self) appended\<rparr>
         else self\<lparr>conversation_history := appended\<rparr>)"

text \<open>A sequence of calls, one per (question, answer) pair.\<close>

fun add_all_to_history :: "ragbot \<Rightarrow> (string \<times> string) list \<Rightarrow> ragbot" where
  "add_all_to_history self [] = self"
| "add_all_to_history self ((q, a) # rest) = add_all_to_history (add_to_history self q a) rest"

section \<open>\<^verbatim>\<open>RAGBot.load_reranker_model\<close> and \<^verbatim>\<open>RAGBot.rerank_documents\<close>\<close>

definition load_reranker_model :: "ragbot \<Rightarrow> cross_encoder option \<times> ragbot" where
  "load_reranker_model self =
     (case reranker_model self of
        Some r \<Rightarrow> (Some r, self)
      | None \<Rightarrow>
          (case reranker_loader self of
             Inl e \<Rightarrow> (None, self\<lparr>reranker_model := None\<rparr>)
           | Inr r \<Rightarrow> (Some r, self\<lparr>reranker_model := Some r\<rparr>)))"

text \<open>\<^verbatim>\<open>for doc, score in zip(docs, scores): doc.metadata["rerank_score"] = float(score)\<close>:
  documents past the end of the scores keep what they had.\<close>

fun store_scores :: "document list \<Rightarrow> rat list \<Rightarrow> document list" where
  "store_scores (doc # docs) (score # scores) =
     doc\<lparr>rerank_score := Some score\<rparr> # store_scores docs scores"
| "store_scores docs [] = docs"
| "store_scores [] scores = []"

text \<open>
  The sort key \<^verbatim>\<open>x.metadata.get("rerank_score", -float('inf'))\<close> is the optional score
  itself: in the order on options \<open>None\<close> lies below every \<open>Some s\<close>. Documents are
  values here: the scores of a successful reranking are in the documents returned, and
  \<open>all_documents\<close> keeps the documents it had (in the code the candidates of
  \<^verbatim>\<open>retrieve_documents\<close> are the corpus objects themselves, so the scores show there too).
  The two fallbacks write no score.
\<close>

definition rerank_documents :: "ragbot \<Rightarrow> string \<Rightarrow> document list \<Rightarrow> document list \<times> ragbot" where
  "rerank_documents self query docs_for_reranking =
     (if docs_for_reranking = [] then ([], self)
      else
        (case load_reranker_model self of
           (None, self') \<Rightarrow> (take (bot_k self') docs_for_reranking, self')
         | (Some reranker, self') \<Rightarrow>
             (case reranker (map (\<lambda>doc. (query, page_content doc)) docs_for_reranking) of
                Inl e \<Rightarrow> (take (bot_k self') docs_for_reranking, self')
              | Inr rerank_scores \<Rightarrow>
                  (let sorted_docs =
                         sorted_reverse rerank_score (store_scores docs_for_reranking rerank_scores)
                   in (take (bot_k self') sorted_docs, self')))))"

section \<open>\<^verbatim>\<open>RAGBot.retrieve_documents\<close>\<close>

definition k_rrf :: nat where
  "k_rrf = 60"

text \<open>\<^verbatim>\<open>{doc.page_content: rank for rank, (doc, score) in enumerate(dense_results_with_scores)}\<close>\<close>

definition dense_ranks_of :: "(document \<times> rat) list \<Rightarrow> (string \<times> nat) list" where
  "dense_ranks_of dense_results_with_scores =
     fold (\<lambda>(rank, (doc, score)) d. AList.update (page_content doc) rank d)
       (enumerate 0 dense_results_with_scores) []"

text \<open>\<^verbatim>\<open>{doc.page_content: i for i, doc in enumerate(self.all_documents)}\<close>\<close>

definition doc_content_to_index_of :: "document list \<Rightarrow> (string \<times> nat) list" where
  "doc_content_to_index_of docs =
     fold (\<lambda>(i, doc) d. AList.update (page_content doc) i d) (enumerate 0 docs) []"

text \<open>\<^verbatim>\<open>rrf_scores[doc_index] = rrf_scores.get(doc_index, 0.0) + 1.0 / (k_rrf + rank)\<close>\<close>

definition rrf_add :: "nat \<Rightarrow> nat \<Rightarrow> (nat \<times> rat) list \<Rightarrow> (nat \<times> rat) list" where
  "rrf_add doc_index rank rrf_scores =
     AList.update doc_index
       (dict_get rrf_scores doc_index 0 + 1 / (of_nat k_rrf + of_nat rank)) rrf_scores"

definition rrf_dense :: "document list \<Rightarrow> (document \<times> rat) list \<Rightarrow> (nat \<times> rat) list" where
  "rrf_dense docs dense_results_with_scores =
     (let doc_content_to_index = doc_content_to_index_of docs
      in fold
           (\<lambda>(content, rank) rrf_scores.
              case map_of doc_content_to_index content of
                Some doc_index \<Rightarrow> rrf_add doc_index rank rrf_scores
              | None \<Rightarrow> rrf_scores)
           (dense_ranks_of dense_results_with_scores) [])"

definition sparse_ranked_indices :: "rat list \<Rightarrow> nat list" where
  "sparse_ranked_indices sparse_scores =
     sorted_reverse (\<lambda>i. sparse_scores ! i) [0..<length sparse_scores]"

definition rrf_sparse :: "nat \<Rightarrow> rat list \<Rightarrow> (nat \<times> rat) list \<Rightarrow> (nat \<times> rat) list" where
  "rrf_sparse K sparse_scores rrf_scores =
     fold
       (\<lambda>(rank, doc_index) rrf.
          if sparse_scores ! doc_index > 0 then rrf_add doc_index rank rrf else rrf)
       (enumerate 0 (take (K * 2) (sparse_ranked_indices sparse_scores))) rrf_scores"

text \<open>
  The fusion step for the corpus \<open>docs\<close> and \<open>K = over_retrieve_k\<close>. When the lengths
  differ the code tests \<^verbatim>\<open>elif sparse_scores:\<close>; the scores are then either the empty
  list of a skipped search or the numpy array of \<^verbatim>\<open>get_scores\<close>, whose truth value raises
  \<^verbatim>\<open>ValueError\<close> when it holds more than one element. In every other case the branch
  only logs.
\<close>

definition rrf_fusion ::
  "document list \<Rightarrow> nat \<Rightarrow> (document \<times> rat) list \<Rightarrow> rat list \<Rightarrow> exn + (nat \<times> rat) list" where
  "rrf_fusion docs K dense_results_with_scores sparse_scores =
     (let rrf_scores = rrf_dense docs dense_results_with_scores
      in if length sparse_scores = length docs then Inr (rrf_sparse K sparse_scores rrf_scores)
         else if 1 < length sparse_scores then Inl (OtherException ''ValueError'')
         else Inr rrf_scores)"

text \<open>\<^verbatim>\<open>sorted(rrf_scores.keys(), key=lambda idx: rrf_scores[idx], reverse=True)[:K]\<close>;
  every \<open>idx\<close> is a key, so the default of \<^const>\<open>dict_get\<close> is never read.\<close>

definition top_indices_for_reranking :: "nat \<Rightarrow> (nat \<times> rat) list \<Rightarrow> nat list" where
  "top_indices_for_reranking K rrf_scores =
     take K (sorted_reverse (\<lambda>idx. dict_get rrf_scores idx 0) (map fst rrf_scores))"

text \<open>\<^verbatim>\<open>[self.all_documents[idx] for idx in top_indices_for_reranking]\<close>, an index out of
  range raising \<^verbatim>\<open>IndexError\<close>.\<close>

fun lookup_all :: "'a list \<Rightarrow> nat list \<Rightarrow> exn + 'a list" where
  "lookup_all xs [] = Inr []"
| "lookup_all xs (i # rest) =
     (if i < length xs
      then (case lookup_all xs rest of Inl e \<Rightarrow> Inl e | Inr ys \<Rightarrow> Inr (xs ! i # ys))
      else Inl (OtherException ''IndexError''))"

definition sparse_search :: "ragbot \<Rightarrow> string \<Rightarrow> exn + rat list" where
  "sparse_search self query =
     (case bm25_index self of
        None \<Rightarrow> Inr []
      | Some bm25 \<Rightarrow>
          if all_documents self \<noteq> [] then
            (let tokenized_query = simple_tokenizer (PyStr query)
             in if tokenized_query \<noteq> [] then bm25 tokenized_query else Inr [])
          else Inr [])"

text \<open>The body of the \<^verbatim>\<open>try\<close> block: \<open>Inl\<close> is an exception on its way to the handler.\<close>

definition retrieve_body :: "ragbot \<Rightarrow> string \<Rightarrow> (exn + document list) \<times> ragbot" where
  "retrieve_body self query =
     (case vectorstore self of
        None \<Rightarrow> (Inr [], self)
      | Some vs \<Rightarrow>
          (case vs query (over_retrieve_k self) of
             Inl e \<Rightarrow> (Inl e, self)
           | Inr dense_results_with_scores \<Rightarrow>
               (case sparse_search self query of
                  Inl e \<Rightarrow> (Inl e, self)
                | Inr sparse_scores \<Rightarrow>
                    (case rrf_fusion (all_documents self) (over_retrieve_k self)
                            dense_results_with_scores sparse_scores of
                       Inl e \<Rightarrow> (Inl e, self)
                     | Inr rrf_scores \<Rightarrow>
                         (case lookup_all (all_documents self)
                                 (top_indices_for_reranking (over_retrieve_k self) rrf_scores) of
                            Inl e \<Rightarrow> (Inl e, self)
                          | Inr docs_for_reranking \<Rightarrow>
                              (case rerank_documents self query docs_for_reranking of
                                 (final_documents, self') \<Rightarrow> (Inr final_documents, self')))))))"

text \<open>
  \<^verbatim>\<open>retrieve_documents\<close> with its handler \<^verbatim>\<open>except Exception: return []\<close>. The result keeps
  the sum type, so that "does not raise" is a statement about the value.
\<close>

definition retrieve_documents :: "ragbot \<Rightarrow> string \<Rightarrow> (exn + document list) \<times> ragbot" where
  "retrieve_documents self query =
     (case retrieve_body self query of
        (Inl exc, self') \<Rightarrow> (Inr [], self')
      | (Inr final_documents, self') \<Rightarrow> (Inr final_documents, self'))"

section \<open>\<^verbatim>\<open>RAGBot.generate_response_stream\<close>\<close>

text \<open>\<^verbatim>\<open>str.rfind\<close> of one character: the last index, or \<open>-1\<close>.\<close>

fun rfind_from :: "char \<Rightarrow> string \<Rightarrow> nat \<Rightarrow> int \<Rightarrow> int" where
  "rfind_from c [] i found = found"
| "rfind_from c (x # xs) i found = rfind_from c xs (Suc i) (if x = c then int i else found)"

definition rfind :: "char \<Rightarrow> string \<Rightarrow> int" where
  "rfind c s = rfind_from c s 0 (- 1)"

text \<open>
  \<^verbatim>\<open>os.path.splitext\<close> (POSIX): the extension starts at the last dot, when that dot comes
  after the last slash and some character between the slash and the dot is not a dot.
\<close>

definition splitext :: "string \<Rightarrow> string \<times> string" where
  "splitext p =
     (let sepIndex = rfind CHR ''/'' p; dotIndex = rfind CHR ''.'' p
      in if dotIndex > sepIndex \<and>
            list_ex (\<lambda>c. c \<noteq> CHR ''.'')
              (take (nat (dotIndex - (sepIndex + 1))) (drop (nat (sepIndex + 1)) p))
         then (take (nat dotIndex) p, drop (nat dotIndex) p)
         else (p, []))"

definition collect_sources :: "document list \<Rightarrow> string set" where
  "collect_sources documents =
     fold
       (\<lambda>doc sources.
          case source doc of
            Some filename_with_ext \<Rightarrow> insert (fst (splitext filename_with_ext)) sources
          | None \<Rightarrow> sources)
       documents {}"

fun join :: "string \<Rightarrow> string list \<Rightarrow> string" where
  "join sep [] = []"
| "join sep [x] = x"
| "join sep (x # y # ys) = x @ sep @ join sep (y # ys)"

definition newline :: char where
  "newline = CHR 0x0A"

text \<open>\<^verbatim>\<open>"\n\n---\n**Sources:**\n" + "\n".join(f"- {s}" for s in names)\<close>\<close>

definition sources_block :: "string list \<Rightarrow> string" where
  "sources_block names =
     [newline, newline] @ ''---'' @ [newline] @ ''**Sources:**'' @ [newline]
       @ join [newline] (map (\<lambda>s. ''- '' @ s) names)"

text \<open>
  One call meets: an exception (or none) in the steps before the \<^verbatim>\<open>try\<close> (prompt,
  tokenization, thread start), the texts the streamer hands out, and an exception (or
  none) that ends the iteration. The yielded strings are kept as events:
  \<^verbatim>\<open>event: token\<close>, \<^verbatim>\<open>event: sources\<close>, \<^verbatim>\<open>event: error\<close>, \<^verbatim>\<open>event: end\<close>.
\<close>

record gen_run =
  setup_failure :: "exn option"
  streamer_texts :: "string list"
  streamer_failure :: "exn option"

datatype gen_error = LLMNotInitialized | GenerationError exn

datatype sse_event =
  TokenEvent string | SourcesEvent "string list" | ErrorEvent gen_error | EndEvent

text \<open>What the generator did: its yields, the exception that left it (if any), the last
  value of the buffer \<^verbatim>\<open>full_response_for_history\<close>, and the bot afterwards.\<close>

record gen_result =
  events :: "sse_event list"
  raised :: "exn option"
  full_response_for_history :: string
  self_after :: ragbot

fun stream_tokens :: "string \<Rightarrow> string list \<Rightarrow> sse_event list \<times> string" where
  "stream_tokens full [] = ([], full)"
| "stream_tokens full (new_text # rest) =
     (if new_text \<noteq> [] then
        (case stream_tokens (full @ new_text) rest of
           (evs, full') \<Rightarrow> (TokenEvent new_text # evs, full'))
      else stream_tokens full rest)"

definition generate_response_stream ::
  "ragbot \<Rightarrow> gen_run \<Rightarrow> string \<Rightarrow> document list \<Rightarrow> gen_result" where
  "generate_response_stream self run question documents =
     (if \<not> llm_model self \<or> \<not> llm_tokenizer self then
        \<lparr>events = [ErrorEvent LLMNotInitialized], raised = None,
         full_response_for_history = [], self_after = self\<rparr>
      else
        (case setup_failure run of
           Some e \<Rightarrow>
             \<lparr>events = [], raised = Some e, full_response_for_history = [], self_after = self\<rparr>
         | None \<Rightarrow>
             (case stream_tokens [] (streamer_texts run) of
                (token_events, streamed) \<Rightarrow>
                  (let (body_events, full) =
                         (case streamer_failure run of
                            Some e \<Rightarrow> (token_events @ [ErrorEvent (GenerationError e)], streamed)
                          | None \<Rightarrow>
                              (let sources = collect_sources documents
                               in if sources \<noteq> {} then
                                    (token_events @ [SourcesEvent (sorted_list_of_set sources)],
                                     streamed @ sources_block (sorted_list_of_set sources))
                                  else (token_events, streamed)))
                   in \<lparr>events = body_events @ [EndEvent], raised = None,
                       full_response_for_history = full,
                       self_after =
                         (if question \<noteq> [] \<and> full \<noteq> [] then add_to_history self question full
                          else self)\<rparr>))))"

section \<open>\<^verbatim>\<open>api/views.py\<close>: \<^verbatim>\<open>rag_service_sse_proxy_generator\<close>\<close>

subsection \<open>Strings and JSON in the chunk parser\<close>

definition startswith :: "string \<Rightarrow> string \<Rightarrow> bool" where
  "startswith s p = (take (length p) s = p)"

definition is_space :: "char \<Rightarrow> bool" where
  "is_space c =
     (c \<in> set [CHR '' '', CHR 0x09, CHR 0x0A, CHR 0x0B, CHR 0x0C, CHR 0x0D,
                CHR 0x1C, CHR 0x1D, CHR 0x1E, CHR 0x1F])"

definition strip :: "string \<Rightarrow> string" where
  "strip s = rev (dropWhile is_space (rev (dropWhile is_space s)))"

text \<open>\<^verbatim>\<open>s.split(c)\<close> for one character \<open>c\<close>; \<open>cur\<close> is the piece being read.\<close>

fun split_on :: "char \<Rightarrow> string \<Rightarrow> string \<Rightarrow> string list" where
  "split_on c cur [] = [cur]"
| "split_on c cur (x # xs) =
     (if x = c then cur # split_on c [] xs else split_on c (cur @ [x]) xs)"

text \<open>What \<^verbatim>\<open>json.loads\<close> can return; numbers are kept as rationals.\<close>

datatype json =
  JString string | JArray "json list" | JObject "(string \<times> json) list"
| JNumber rat | JBool bool | JNull

text \<open>
  The parser of the caller's world: \<^verbatim>\<open>json.loads\<close> (it returns or raises), the text an
  f-string makes of a value that is not a \<^verbatim>\<open>str\<close>, and what \<^verbatim>\<open>interaction.save()\<close>
  does (\<open>None\<close>: it returns).
\<close>

record proxy_env =
  json_loads :: "string \<Rightarrow> exn + json"
  py_format :: "json \<Rightarrow> string"
  save_failure :: "exn option"

fun truthy :: "json \<Rightarrow> bool" where
  "truthy (JString s) = (s \<noteq> [])"
| "truthy (JArray xs) = (xs \<noteq> [])"
| "truthy (JObject kvs) = (kvs \<noteq> [])"
| "truthy (JNumber n) = (n \<noteq> 0)"
| "truthy (JBool b) = b"
| "truthy JNull = False"

text \<open>Iterating a value: a list gives its elements, a string its characters, a dictionary
  its keys; anything else raises \<^verbatim>\<open>TypeError\<close>.\<close>

fun iterate :: "json \<Rightarrow> exn + json list" where
  "iterate (JArray xs) = Inr xs"
| "iterate (JString s) = Inr (map (\<lambda>c. JString [c]) s)"
| "iterate (JObject kvs) = Inr (map (\<lambda>kv. JString (fst kv)) kvs)"
| "iterate v = Inl (OtherException ''TypeError'')"

definition format_item :: "proxy_env \<Rightarrow> json \<Rightarrow> string" where
  "format_item env v = ''- '' @ (case v of JString s \<Rightarrow> s | _ \<Rightarrow> py_format env v)"

text \<open>The first line of \<^verbatim>\<open>chunk.strip().split('\n')\<close> that starts with \<^verbatim>\<open>data:\<close>.\<close>

definition data_line_of :: "string \<Rightarrow> string option" where
  "data_line_of chunk =
     find (\<lambda>line. startswith line ''data:'') (split_on newline [] (strip chunk))"

text \<open>\<^verbatim>\<open>json.loads(data_line[len("data:"):].strip())\<close>, then \<^verbatim>\<open>data.get(key, default)\<close>, which
  raises \<^verbatim>\<open>AttributeError\<close> unless the value is a dictionary. \<open>None\<close>: no data line.\<close>

definition data_field :: "proxy_env \<Rightarrow> string \<Rightarrow> string \<Rightarrow> json \<Rightarrow> exn + json option" where
  "data_field env chunk key dflt =
     (case data_line_of chunk of
        None \<Rightarrow> Inr None
      | Some data_line \<Rightarrow>
          (case json_loads env (strip (drop (length ''data:'') data_line)) of
             Inl e \<Rightarrow> Inl e
           | Inr (JObject kvs) \<Rightarrow> Inr (Some (dict_get kvs key dflt))
           | Inr _ \<Rightarrow> Inl (OtherException ''AttributeError'')))"

text \<open>The text a \<^verbatim>\<open>token\<close> chunk adds to \<^verbatim>\<open>full_response_text\<close> (\<^verbatim>\<open>+=\<close> of a value that is
  not a string raises \<^verbatim>\<open>TypeError\<close>).\<close>

definition token_text :: "proxy_env \<Rightarrow> string \<Rightarrow> exn + string" where
  "token_text env chunk =
     (case data_field env chunk ''token'' (JString []) of
        Inl e \<Rightarrow> Inl e
      | Inr None \<Rightarrow> Inr []
      | Inr (Some (JString token)) \<Rightarrow> Inr token
      | Inr (Some _) \<Rightarrow> Inl (OtherException ''TypeError''))"

text \<open>The markdown a \<^verbatim>\<open>sources\<close> chunk adds.\<close>

definition sources_markdown :: "proxy_env \<Rightarrow> string \<Rightarrow> exn + string" where
  "sources_markdown env chunk =
     (case data_field env chunk ''sources'' (JArray []) of
        Inl e \<Rightarrow> Inl e
      | Inr None \<Rightarrow> Inr []
      | Inr (Some sources_list) \<Rightarrow>
          if truthy sources_list then
            (case iterate sources_list of
               Inl e \<Rightarrow> Inl e
             | Inr items \<Rightarrow>
                 Inr ([newline, newline] @ ''---'' @ [newline] @ ''**Sources:**'' @ [newline]
                      @ join [newline] (map (format_item env) items)))
          else Inr [])"

subsection \<open>The session\<close>

text \<open>
  \<^verbatim>\<open>interaction.error_message\<close> is one of the generator's messages: the one for a status
  other than 200 (status and decoded body), or the one of a handler (with the exception).
\<close>

datatype error_msg = ServiceStatusError nat string | CaughtError exn

record interaction =
  interaction_id :: string
  final_response_text :: "string option"
  error_message :: "error_msg option"
  has_final_response_text :: bool
  has_save :: bool

text \<open>
  What the generator yields: the \<^verbatim>\<open>init\<close> event, a keep-alive comment
  \<^verbatim>\<open>: ping <int(current_time)>\<close>, an upstream chunk as it came, an \<^verbatim>\<open>error\<close> event (message
  and interaction id), the \<^verbatim>\<open>end\<close> event.
\<close>

datatype proxy_out =
  Init string | KeepAlive int | Forward string | ErrorOut error_msg string | EndOut

text \<open>
  One chunk of \<^verbatim>\<open>response.aiter_text()\<close> with the two clock readings the loop takes for
  it: \<^verbatim>\<open>current_time\<close> when the chunk arrives, and \<^verbatim>\<open>time.time()\<close> after it was yielded.
\<close>

record chunk_arrival =
  chunk :: string
  current_time :: rat
  time_after_yield :: rat

datatype stream_end = StreamEnds | StreamRaises exn

text \<open>
  The upstream: the request raises, or it answers with a status, with the outcome of
  \<^verbatim>\<open>(await response.aread()).decode()\<close> (read for a status other than 200), and with the
  chunks of its body and how the body ends.
\<close>

datatype upstream =
  ConnectRaises exn
| Response nat "exn + string" "chunk_arrival list" stream_end

text \<open>\<^verbatim>\<open>int(x)\<close> of a float: towards zero.\<close>

definition py_int :: "rat \<Rightarrow> int" where
  "py_int x = (if 0 \<le> x then \<lfloor>x\<rfloor> else \<lceil>x\<rceil>)"

definition keep_alive :: "rat \<Rightarrow> rat \<Rightarrow> proxy_out list" where
  "keep_alive last_activity_time now =
     (if now - last_activity_time > 15 then [KeepAlive (py_int now)] else [])"

text \<open>
  The \<^verbatim>\<open>async for\<close> loop. It returns the yields, \<^verbatim>\<open>full_response_text\<close>,
  \<^verbatim>\<open>error_occurred\<close>, and whether it was left by \<^verbatim>\<open>break\<close>. An exception in the parsing of
  a chunk is logged and the loop goes on.
\<close>

fun proxy_loop ::
  "proxy_env \<Rightarrow> rat \<Rightarrow> string \<Rightarrow> bool \<Rightarrow> chunk_arrival list
     \<Rightarrow> proxy_out list \<times> string \<times> bool \<times> bool" where
  "proxy_loop env last_activity_time full err [] = ([], full, err, False)"
| "proxy_loop env last_activity_time full err (a # rest) =
     (let outs = keep_alive last_activity_time (current_time a) @ [Forward (chunk a)];
          go = (\<lambda>full' err'.
                  case proxy_loop env (time_after_yield a) full' err' rest of
                    (outs', r) \<Rightarrow> (outs @ outs', r))
      in if startswith (chunk a) ''event: token'' then
           (case token_text env (chunk a) of
              Inl parse_err \<Rightarrow> go full err
            | Inr token \<Rightarrow> go (full @ token) err)
         else if startswith (chunk a) ''event: sources'' then
           (case sources_markdown env (chunk a) of
              Inl parse_err \<Rightarrow> go full err
            | Inr md \<Rightarrow> go (full @ md) err)
         else if startswith (chunk a) ''event: error'' then go full True
         else if startswith (chunk a) ''event: end'' then (outs, full, err, True)
         else go full err)"

text \<open>What a session did: its yields, the interaction object afterwards, the number of
  calls of \<^verbatim>\<open>interaction.save()\<close>, the record a successful save stored, and the last values
  of \<^verbatim>\<open>full_response_text\<close> and \<^verbatim>\<open>error_occurred\<close>.\<close>

record proxy_result =
  yielded :: "proxy_out list"
  interaction_after :: interaction
  save_calls :: nat
  stored :: "interaction option"
  full_response_text :: string
  error_occurred :: bool

text \<open>The \<^verbatim>\<open>finally\<close> block, after the yields \<open>outs\<close> made so far.\<close>

definition finally_block ::
  "proxy_env \<Rightarrow> proxy_out list \<Rightarrow> interaction \<Rightarrow> string \<Rightarrow> bool \<Rightarrow> proxy_result" where
  "finally_block env outs interaction full err =
     (let interaction' =
            (if full \<noteq> [] \<and> \<not> err then
               (if has_final_response_text interaction then interaction\<lparr>final_response_text := Some full\<rparr>
                else interaction)
             else interaction)
      in \<lparr>yielded = outs @ (if \<not> err then [EndOut] else []),
          interaction_after = interaction',
          save_calls = (if has_save interaction' then 1 else 0),
          stored = (if has_save interaction' \<and> save_failure env = None then Some interaction' else None),
          full_response_text = full,
          error_occurred = err\<rparr>)"

text \<open>The three \<^verbatim>\<open>except\<close> clauses: each records the message, sets \<^verbatim>\<open>error_occurred\<close> and
  yields an \<^verbatim>\<open>error\<close> event and an \<^verbatim>\<open>end\<close> event; then the \<^verbatim>\<open>finally\<close> block runs.\<close>

definition handler ::
  "proxy_env \<Rightarrow> exn \<Rightarrow> proxy_out list \<Rightarrow> interaction \<Rightarrow> string \<Rightarrow> proxy_result" where
  "handler env e outs interaction full =
     finally_block env
       (outs @ [ErrorOut (CaughtError e) (interaction_id interaction), EndOut])
       (interaction\<lparr>error_message := Some (CaughtError e)\<rparr>) full True"

text \<open>\<open>t_init\<close> is the clock reading taken after the \<^verbatim>\<open>init\<close> event was yielded.\<close>

definition rag_service_sse_proxy_generator ::
  "proxy_env \<Rightarrow> rat \<Rightarrow> upstream \<Rightarrow> interaction \<Rightarrow> proxy_result" where
  "rag_service_sse_proxy_generator env t_init up interaction =
     (let init = [Init (interaction_id interaction)]
      in case up of
           ConnectRaises e \<Rightarrow> handler env e init interaction []
         | Response status_code body chunks fin \<Rightarrow>
             if status_code \<noteq> 200 then
               (case body of
                  Inl e \<Rightarrow> handler env e init interaction []
                | Inr error_detail \<Rightarrow>
                    finally_block env
                      (init @ [ErrorOut (ServiceStatusError status_code error_detail)
                                 (interaction_id interaction)])
                      (interaction\<lparr>error_message := Some (ServiceStatusError status_code error_detail)\<rparr>)
                      [] True)
             else
               (case proxy_loop env t_init [] False chunks of
                  (outs, full, err, broke) \<Rightarrow>
                    (case fin of
                       StreamRaises e \<Rightarrow>
                         if broke then finally_block env (init @ outs) interaction full err
                         else handler env e (init @ outs) interaction full
                     | StreamEnds \<Rightarrow> finally_block env (init @ outs) interaction full err)))"

text \<open>An \<^verbatim>\<open>end\<close> event on the wire: the generator's own, or an upstream chunk that the
  loop itself reads as one.\<close>

fun is_end_event :: "proxy_out \<Rightarrow> bool" where
  "is_end_event EndOut = True"
| "is_end_event (Forward c) = startswith c ''event: end''"
| "is_end_event _ = False"

section \<open>The claims' notions, written out\<close>

subsection \<open>For the proxy\<close>

text \<open>A chunk that starts with \<^verbatim>\<open>event: error\<close> is read before the loop ends: it comes
  before the first chunk that starts with \<^verbatim>\<open>event: end\<close>.\<close>

fun error_chunk_seen :: "chunk_arrival list \<Rightarrow> bool" where
  "error_chunk_seen [] = False"
| "error_chunk_seen (a # rest) =
     (startswith (chunk a) ''event: error'' \<or>
      (\<not> startswith (chunk a) ''event: end'' \<and> error_chunk_seen rest))"

definition end_chunk_seen :: "chunk_arrival list \<Rightarrow> bool" where
  "end_chunk_seen chunks = list_ex (\<lambda>a. startswith (chunk a) ''event: end'') chunks"

text \<open>The session failed: the request raised, the status was not 200, the upstream sent
  an \<^verbatim>\<open>error\<close> event, or the body raised before an \<^verbatim>\<open>end\<close> event came.\<close>

fun session_failed :: "upstream \<Rightarrow> bool" where
  "session_failed (ConnectRaises e) = True"
| "session_failed (Response status_code body chunks fin) =
     (status_code \<noteq> 200 \<or> error_chunk_seen chunks \<or>
      (fin \<noteq> StreamEnds \<and> \<not> end_chunk_seen chunks))"

text \<open>The chunks the loop forwards: all up to and with the first \<^verbatim>\<open>end\<close> event.\<close>

fun forwarded :: "chunk_arrival list \<Rightarrow> chunk_arrival list" where
  "forwarded [] = []"
| "forwarded (a # rest) =
     (if startswith (chunk a) ''event: end'' then [a] else a # forwarded rest)"

text \<open>Before each forwarded chunk a keep-alive comment, exactly when more than 15 seconds
  passed between the last activity and the chunk's arrival.\<close>

fun paced :: "rat \<Rightarrow> chunk_arrival list \<Rightarrow> proxy_out list" where
  "paced last_activity_time [] = []"
| "paced last_activity_time (a # rest) =
     (if current_time a - last_activity_time > 15 then [KeepAlive (py_int (current_time a))]
      else [])
     @ Forward (chunk a) # paced (time_after_yield a) rest"

subsection \<open>For the generation coordinator\<close>

text \<open>The source identifiers of the documents, stripped of their file extension,
  deduplicated, in the order \<^verbatim>\<open>sorted\<close> gives them.\<close>

definition source_names :: "document list \<Rightarrow> string list" where
  "source_names documents =
     sorted_list_of_set (set (map (\<lambda>f. fst (splitext f)) (List.map_filter source documents)))"

subsection \<open>For the rank fusion\<close>

text \<open>The 0-based rank at which a value appears in a list.\<close>

fun rank_in :: "'a \<Rightarrow> 'a list \<Rightarrow> nat option" where
  "rank_in x [] = None"
| "rank_in x (y # ys) = (if x = y then Some 0 else map_option Suc (rank_in x ys))"

text \<open>The 0-based rank of the last place at which a value appears in a list.\<close>

fun last_rank_in :: "'a \<Rightarrow> 'a list \<Rightarrow> nat option" where
  "last_rank_in x [] = None"
| "last_rank_in x (y # ys) =
     (case last_rank_in x ys of
        Some r \<Rightarrow> Some (Suc r)
      | None \<Rightarrow> if x = y then Some 0 else None)"

text \<open>One list's contribution: \<open>1 / (60 + rank)\<close> for a document that appears in it.\<close>

definition rrf_term :: "nat option \<Rightarrow> rat" where
  "rrf_term r = (case r of None \<Rightarrow> 0 | Some rank \<Rightarrow> 1 / (60 + of_nat rank))"

text \<open>The sparse contribution: the rank among the top \<open>2 \<times> K\<close> documents by sparse score,
  counted only for a score above zero; a missing score contributes nothing.\<close>

definition sparse_term :: "nat \<Rightarrow> rat list \<Rightarrow> nat \<Rightarrow> rat" where
  "sparse_term K sparse_scores d =
     (if d < length sparse_scores \<and> sparse_scores ! d > 0
      then rrf_term (rank_in d (take (2 * K) (sparse_ranked_indices sparse_scores)))
      else 0)"

text \<open>The fused score as the claim words it: the document itself appears in the dense
  list.\<close>

definition fused_claimed ::
  "document list \<Rightarrow> nat \<Rightarrow> (document \<times> rat) list \<Rightarrow> rat list \<Rightarrow> nat \<Rightarrow> rat" where
  "fused_claimed docs K dense sparse_scores d =
     rrf_term (rank_in (docs ! d) (map fst dense)) + sparse_term K sparse_scores d"

text \<open>The fused score with the dense list joined by content: a dense result with the
  document's \<^verbatim>\<open>page_content\<close> appears (the last one counts, should several carry it).\<close>

definition fused_by_content ::
  "document list \<Rightarrow> nat \<Rightarrow> (document \<times> rat) list \<Rightarrow> rat list \<Rightarrow> nat \<Rightarrow> rat" where
  "fused_by_content docs K dense sparse_scores d =
     rrf_term (last_rank_in (page_content (docs ! d)) (map (\<lambda>r. page_content (fst r)) dense))
     + sparse_term K sparse_scores d"

text \<open>The two loops of the fusion as lists of pairs (document index, rank).\<close>

definition dense_items :: "document list \<Rightarrow> (document \<times> rat) list \<Rightarrow> (nat \<times> nat) list" where
  "dense_items docs dense =
     List.map_filter
       (\<lambda>(content, rank). map_option (\<lambda>i. (i, rank)) (map_of (doc_content_to_index_of docs) content))
       (dense_ranks_of dense)"

definition sparse_items :: "nat \<Rightarrow> rat list \<Rightarrow> (nat \<times> nat) list" where
  "sparse_items K sparse_scores =
     map (\<lambda>(r, i). (i, r))
       (filter (\<lambda>(r, i). sparse_scores ! i > 0)
          (enumerate 0 (take (K * 2) (sparse_ranked_indices sparse_scores))))"

section \<open>Concrete inputs\<close>

text \<open>A bot with no index, no reranker and an empty history; the examples below change
  the fields they need.\<close>

definition quiet_bot :: ragbot where
  "quiet_bot =
     \<lparr>vectorstore = None, bm25_index = None, all_documents = [],
      reranker_model = None, reranker_loader = Inl (OtherException ''no model''),
      over_retrieve_k = 20, bot_k = 5, conversation_history = [],
      max_history_length = 3, llm_model = True, llm_tokenizer = True\<rparr>"

definition doc_of :: "string \<Rightarrow> string \<Rightarrow> document" where
  "doc_of content file = \<lparr>page_content = content, source = Some file, rerank_score = None\<rparr>"

definition six_docs :: "document list" where
  "six_docs = [doc_of ''a'' ''f1.pdf'', doc_of ''b'' ''f2.pdf'', doc_of ''c'' ''f3.pdf'',
               doc_of ''d'' ''f4.pdf'', doc_of ''e'' ''f5.pdf'', doc_of ''f'' ''f6.pdf'']"

definition failing_reranker :: cross_encoder where
  "failing_reranker pairs = Inl (OtherException ''predict failed'')"

definition three_tokens :: gen_run where
  "three_tokens =
     \<lparr>setup_failure = None, streamer_texts = [''Hel'', [], ''lo''], streamer_failure = None\<rparr>"

text \<open>
  An environment for the examples. Its \<^verbatim>\<open>json.loads\<close> gives the data texts of the
  example chunks the values that \<^verbatim>\<open>json.loads\<close> gives them, and raises on every other
  text; the examples hand it no other text. \<^verbatim>\<open>interaction.save()\<close> returns.
\<close>

definition fixed_json :: proxy_env where
  \<open>fixed_json =
     \<lparr>json_loads =
        (\<lambda>s. if s = ''{"token": "Hi"}'' then Inr (JObject [(''token'', JString ''Hi'')])
             else if s = ''{"error": "Error during generation: boom"}''
               then Inr (JObject [(''error'', JString ''Error during generation: boom'')])
             else if s = ''{}'' then Inr (JObject [])
             else Inl (OtherException ''JSONDecodeError'')),
      py_format = (\<lambda>v. ''?''), save_failure = None\<rparr>\<close>

text \<open>The same environment with a database that refuses the write.\<close>

definition failing_save :: proxy_env where
  "failing_save = fixed_json\<lparr>save_failure := Some (OtherException ''database is locked'')\<rparr>"

definition fresh_interaction :: interaction where
  "fresh_interaction =
     \<lparr>interaction_id = ''42'', final_response_text = None, error_message = None,
      has_final_response_text = True, has_save = True\<rparr>"

text \<open>The chunks as \<^verbatim>\<open>generate_response_stream\<close> writes them, the payload of a token event
  being \<^verbatim>\<open>json.dumps({'token': 'Hi'})\<close>.\<close>

definition token_chunk :: string where
  \<open>token_chunk = ''event: token'' @ [newline] @ ''data: {"token": "Hi"}'' @ [newline, newline]\<close>

definition error_chunk :: string where
  \<open>error_chunk =
     ''event: error'' @ [newline] @ ''data: {"error": "Error during generation: boom"}''
       @ [newline, newline]\<close>

definition end_chunk :: string where
  "end_chunk = ''event: end'' @ [newline] @ ''data: {}'' @ [newline, newline]"

text \<open>Two token chunks, the second one 16 seconds after the first, and the upstream's
  \<^verbatim>\<open>end\<close> event 10 seconds later.\<close>

definition slow_stream :: "chunk_arrival list" where
  "slow_stream =
     [\<lparr>chunk = token_chunk, current_time = 5, time_after_yield = 5\<rparr>,
      \<lparr>chunk = token_chunk, current_time = 21, time_after_yield = 21\<rparr>,
      \<lparr>chunk = end_chunk, current_time = 31, time_after_yield = 31\<rparr>]"

text \<open>A token chunk, then the upstream's \<^verbatim>\<open>error\<close> event and its \<^verbatim>\<open>end\<close> event.\<close>

definition failed_stream :: "chunk_arrival list" where
  "failed_stream =
     [\<lparr>chunk = token_chunk, current_time = 1, time_after_yield = 1\<rparr>,
      \<lparr>chunk = error_chunk, current_time = 2, time_after_yield = 2\<rparr>,
      \<lparr>chunk = end_chunk, current_time = 3, time_after_yield = 3\<rparr>]"

definition cited_docs :: "document list" where
  "cited_docs =
     [doc_of ''x'' ''notes.md'', doc_of ''y'' ''guide.pdf'', doc_of ''z'' ''guide.txt'',
      \<lparr>page_content = ''w'', source = None, rerank_score = None\<rparr>]"

text \<open>Two corpus documents with the same text; the dense search returns the first.\<close>

definition twin_docs :: "document list" where
  "twin_docs = [doc_of ''same text'' ''a.pdf'', doc_of ''same text'' ''b.pdf'']"

definition twin_dense :: "(document \<times> rat) list" where
  "twin_dense = [(doc_of ''same text'' ''a.pdf'', 1 / 10)]"

definition two_docs :: "document list" where
  "two_docs = [doc_of ''alpha'' ''a.pdf'', doc_of ''beta'' ''b.pdf'']"

definition two_dense :: "(document \<times> rat) list" where
  "two_dense = [(doc_of ''alpha'' ''a.pdf'', 1 / 10), (doc_of ''beta'' ''b.pdf'', 2 / 10)]"

definition sparse_only_bot :: ragbot where
  "sparse_only_bot =
     quiet_bot\<lparr>bm25_index := Some (\<lambda>tokens. Inr [3]),
               all_documents := [doc_of ''fever guidance'' ''g.pdf'']\<rparr>"

definition empty_dense_bot :: ragbot where
  "empty_dense_bot = sparse_only_bot\<lparr>vectorstore := Some (\<lambda>query k. Inr [])\<rparr>"

definition no_match_bot :: ragbot where
  "no_match_bot =
     empty_dense_bot\<lparr>bm25_index := Some (\<lambda>tokens. Inr [0])\<rparr>"

section \<open>The conversation history\<close>

lemma add_to_history_max [simp]:
  "max_history_length (add_to_history self q a) = max_history_length self"
  by (simp add: add_to_history_def Let_def)

lemma add_all_to_history_max [simp]:
  "max_history_length (add_all_to_history self ps) = max_history_length self"
  by (induction self ps rule: add_all_to_history.induct) simp_all

text \<open>With a bound of at least one turn, a call keeps the last \<open>max_history_length\<close> turns.\<close>

lemma add_to_history_drop:
  assumes "1 \<le> max_history_length self"
  shows "conversation_history (add_to_history self q a) =
         (let appended = conversation_history self @ [\<lparr>human = q, ai = a\<rparr>]
          in drop (length appended - nat (max_history_length self)) appended)"
  using assms
  by (auto simp: add_to_history_def slice_from_def Let_def nat_diff_distrib' nat_add_distrib)

lemma add_to_history_length:
  assumes "1 \<le> max_history_length self"
    and "int (length (conversation_history self)) \<le> max_history_length self"
  shows "int (length (conversation_history (add_to_history self q a))) \<le> max_history_length self"
  using assms by (auto simp: add_to_history_def slice_from_def Let_def)

lemma drop_tail_again:
  fixes m :: nat
  shows "drop (length (drop (length xs - m) xs @ ys) - m) (drop (length xs - m) xs @ ys)
         = drop (length (xs @ ys) - m) (xs @ ys)"
proof (cases "length xs \<le> m")
  case True
  then show ?thesis by simp
next
  case False
  then have "length (drop (length xs - m) xs @ ys) - m = length ys" by simp
  moreover have "length (xs @ ys) - m = (length xs - m) + length ys" using False by simp
  ultimately show ?thesis using False by (simp add: drop_append ac_simps)
qed

text \<open>With a bound of at least one turn, any sequence of calls leaves the last
  \<open>max_history_length\<close> turns of everything appended, in order.\<close>

lemma add_all_to_history_fifo:
  assumes "1 \<le> max_history_length self" and "ps \<noteq> []"
  shows "conversation_history (add_all_to_history self ps) =
         (let appended = conversation_history self @ map (\<lambda>(q, a). \<lparr>human = q, ai = a\<rparr>) ps
          in drop (length appended - nat (max_history_length self)) appended)"
  using assms
proof (induction self ps rule: add_all_to_history.induct)
  case (1 self)
  then show ?case by simp
next
  case (2 self q a rest)
  let ?m = "nat (max_history_length self)"
  let ?h1 = "conversation_history self @ [\<lparr>human = q, ai = a\<rparr>]"
  have step: "conversation_history (add_to_history self q a) = drop (length ?h1 - ?m) ?h1"
    using 2(2) by (simp add: add_to_history_drop Let_def)
  show ?case
  proof (cases "rest = []")
    case True
    then show ?thesis using step by (simp add: Let_def)
  next
    case False
    let ?ys = "map (\<lambda>(q, a). \<lparr>human = q, ai = a\<rparr>) rest"
    have "conversation_history (add_all_to_history (add_to_history self q a) rest)
          = drop (length (drop (length ?h1 - ?m) ?h1 @ ?ys) - ?m)
              (drop (length ?h1 - ?m) ?h1 @ ?ys)"
      using 2(1)[OF _ False] 2(2) step by (simp add: Let_def)
    also have "\<dots> = drop (length (?h1 @ ?ys) - ?m) (?h1 @ ?ys)"
      by (rule drop_tail_again)
    finally show ?thesis by (simp add: Let_def)
  qed
qed

text \<open>From an empty history and a bound \<open>m \<ge> 1\<close>, \<open>m + 3\<close> appended turns leave exactly
  the last \<open>m\<close>, the oldest three gone.\<close>

lemma add_all_to_history_plus_three:
  assumes "1 \<le> max_history_length self" and "conversation_history self = []"
    and "int (length ps) = max_history_length self + 3"
  shows "conversation_history (add_all_to_history self ps)
           = drop 3 (map (\<lambda>(q, a). \<lparr>human = q, ai = a\<rparr>) ps)
         \<and> int (length (conversation_history (add_all_to_history self ps)))
           = max_history_length self"
proof -
  have ne: "ps \<noteq> []" using assms by auto
  have "length ps - nat (max_history_length self) = 3" using assms by linarith
  then show ?thesis
    using add_all_to_history_fifo[OF assms(1) ne] assms by (simp add: Let_def)
qed

text \<open>
  C5. The history is a FIFO-bounded log: after any sequence of \<^verbatim>\<open>add_to_history\<close> calls it
  holds at most \<open>max_history_length\<close> turns. The code does not keep this for the bound
  \<open>0\<close>: the trimming slice \<^verbatim>\<open>history[-0:]\<close> is the whole list, so from an empty history
  three calls leave three turns where the bound allows none.
\<close>

theorem history_bound_zero_not_kept:
  "max_history_length (quiet_bot\<lparr>max_history_length := 0\<rparr>) = 0 \<and>
   conversation_history
     (add_all_to_history (quiet_bot\<lparr>max_history_length := 0\<rparr>)
        [(''q1'', ''a1''), (''q2'', ''a2''), (''q3'', ''a3'')])
   = [\<lparr>human = ''q1'', ai = ''a1''\<rparr>, \<lparr>human = ''q2'', ai = ''a2''\<rparr>,
      \<lparr>human = ''q3'', ai = ''a3''\<rparr>]"
  by (simp add: quiet_bot_def add_to_history_def slice_from_def)

section \<open>The tokenizer\<close>

text \<open>
  C6. \<^verbatim>\<open>simple_tokenizer\<close> lower-cases the text, splits it on runs of non-alphanumeric
  characters and drops empty tokens. The code splits on \<^verbatim>\<open>\W+\<close>, for which the underscore
  is a word character: \<^verbatim>\<open>Foo_Bar baz\<close> gives two tokens, where the splitting its docstring
  describes gives three.
\<close>

theorem simple_tokenizer_keeps_underscore:
  "simple_tokenizer (PyStr ''Foo_Bar baz'') = [''foo_bar'', ''baz''] \<and>
   docstring_tokenizer ''Foo_Bar baz'' = [''foo'', ''bar'', ''baz'']"
  by (simp add: docstring_tokenizer_def lower_def lower_char_def is_word_char_def
      is_alnum_char_def)

section \<open>The reranker's fallback\<close>

lemma load_reranker_model_bot_k: "bot_k (snd (load_reranker_model self)) = bot_k self"
  by (simp add: load_reranker_model_def split: option.splits sum.splits)

text \<open>
  C4. For a non-empty candidate list, if the reranker model is unavailable
  (\<^verbatim>\<open>load_reranker_model\<close> returns \<^verbatim>\<open>None\<close>) or its prediction raises,
  \<^verbatim>\<open>rerank_documents\<close> returns the first \<open>self.k\<close> candidates, unchanged and in their input
  order; with \<open>self.k = 5\<close> these are the first five, and the result is not empty.
\<close>

theorem rerank_fallback:
  assumes "docs \<noteq> []"
    and "fst (load_reranker_model self) = None \<or>
         (\<exists>reranker e. fst (load_reranker_model self) = Some reranker \<and>
            reranker (map (\<lambda>doc. (query, page_content doc)) docs) = Inl e)"
  shows "fst (rerank_documents self query docs) = take (bot_k self) docs \<and>
         (bot_k self = 5 \<longrightarrow>
            fst (rerank_documents self query docs) = take 5 docs \<and>
            fst (rerank_documents self query docs) \<noteq> [])"
proof -
  obtain m self' where l: "load_reranker_model self = (m, self')"
    by (cases "load_reranker_model self")
  have k: "bot_k self' = bot_k self"
    using load_reranker_model_bot_k [of self] l by simp
  have "fst (rerank_documents self query docs) = take (bot_k self) docs"
  proof (cases m)
    case None
    then show ?thesis using assms(1) l k by (simp add: rerank_documents_def)
  next
    case (Some reranker)
    then obtain e where "reranker (map (\<lambda>doc. (query, page_content doc)) docs) = Inl e"
      using assms(2) l by auto
    then show ?thesis using assms(1) l k Some by (simp add: rerank_documents_def)
  qed
  moreover have "take 5 docs \<noteq> []" using assms(1) by simp
  ultimately show ?thesis by simp
qed

theorem rerank_fallback_witness:
  "six_docs \<noteq> [] \<and>
   fst (load_reranker_model quiet_bot) = None \<and>
   fst (rerank_documents quiet_bot ''q'' six_docs) = take 5 six_docs \<and>
   fst (load_reranker_model (quiet_bot\<lparr>reranker_model := Some failing_reranker\<rparr>))
     = Some failing_reranker \<and>
   failing_reranker (map (\<lambda>doc. (''q'', page_content doc)) six_docs)
     = Inl (OtherException ''predict failed'') \<and>
   fst (rerank_documents (quiet_bot\<lparr>reranker_model := Some failing_reranker\<rparr>) ''q'' six_docs)
     = [doc_of ''a'' ''f1.pdf'', doc_of ''b'' ''f2.pdf'', doc_of ''c'' ''f3.pdf'',
        doc_of ''d'' ''f4.pdf'', doc_of ''e'' ''f5.pdf'']"
proof -
  have ne: "six_docs \<noteq> []" by (simp add: six_docs_def)
  have l1: "fst (load_reranker_model quiet_bot) = None"
    by (simp add: load_reranker_model_def quiet_bot_def)
  have l2: "fst (load_reranker_model (quiet_bot\<lparr>reranker_model := Some failing_reranker\<rparr>))
     = Some failing_reranker"
    by (simp add: load_reranker_model_def quiet_bot_def)
  have f: "failing_reranker (map (\<lambda>doc. (''q'', page_content doc)) six_docs)
     = Inl (OtherException ''predict failed'')"
    by (simp add: failing_reranker_def)
  have k1: "bot_k quiet_bot = 5" by (simp add: quiet_bot_def)
  have k2: "bot_k (quiet_bot\<lparr>reranker_model := Some failing_reranker\<rparr>) = 5"
    by (simp add: quiet_bot_def)
  from rerank_fallback [of six_docs quiet_bot "''q''"] ne l1 k1
  have r1: "fst (rerank_documents quiet_bot ''q'' six_docs) = take 5 six_docs" by simp
  from rerank_fallback [of six_docs "quiet_bot\<lparr>reranker_model := Some failing_reranker\<rparr>" "''q''"]
    ne l2 f k2
  have r2: "fst (rerank_documents (quiet_bot\<lparr>reranker_model := Some failing_reranker\<rparr>)
                   ''q'' six_docs) = take 5 six_docs"
    by blast
  have t: "take 5 six_docs = [doc_of ''a'' ''f1.pdf'', doc_of ''b'' ''f2.pdf'',
        doc_of ''c'' ''f3.pdf'', doc_of ''d'' ''f4.pdf'', doc_of ''e'' ''f5.pdf'']"
    by (simp add: six_docs_def)
  show ?thesis using ne l1 l2 f r1 r2 t by simp
qed

section \<open>Hybrid retrieval\<close>

subsection \<open>Lists and dictionaries\<close>

lemma rank_in_None: "rank_in x xs = None \<longleftrightarrow> x \<notin> set xs"
  by (induction xs) auto

lemma rank_in_Some: "rank_in x xs = Some r \<Longrightarrow> r < length xs \<and> xs ! r = x"
  by (induction xs arbitrary: r) (auto split: if_splits)

lemma rank_in_nth: "distinct xs \<Longrightarrow> r < length xs \<Longrightarrow> rank_in (xs ! r) xs = Some r"
proof (induction xs arbitrary: r)
  case Nil
  then show ?case by simp
next
  case (Cons y ys)
  then show ?case by (cases r) auto
qed

lemma map_of_zip_upt: "map_of (zip xs [n..<n + length xs]) x = map_option (\<lambda>r. n + r) (rank_in x xs)"
proof (induction xs arbitrary: n)
  case Nil
  then show ?case by simp
next
  case (Cons y ys)
  have "[n..<n + length (y # ys)] = n # [Suc n..<Suc n + length ys]"
    by (simp add: upt_rec)
  then show ?case using Cons [of "Suc n"]
    by (auto simp: option.map_comp comp_def)
qed

text \<open>A dictionary comprehension over distinct keys lists the pairs in order.\<close>

lemma fold_update_fresh:
  assumes "distinct (map fst acc @ map k xs)"
  shows "fold (\<lambda>(i, x) d. AList.update (k x) i d) (enumerate n xs) acc
         = acc @ zip (map k xs) [n..<n + length xs]"
  using assms
proof (induction xs arbitrary: n acc)
  case Nil
  then show ?case by simp
next
  case (Cons x xs)
  have fresh: "k x \<notin> fst ` set acc" using Cons.prems by auto
  then have u: "AList.update (k x) n acc = acc @ [(k x, n)]"
    by (induction acc) auto
  have d: "distinct (map fst (acc @ [(k x, n)]) @ map k xs)" using Cons.prems by auto
  have "[n..<n + length (x # xs)] = n # [Suc n..<Suc n + length xs]"
    by (simp add: upt_rec)
  then show ?case using Cons.IH [OF d, of "Suc n"] u by simp
qed

lemma fold_map_filter:
  "fold (\<lambda>x acc. case g x of Some y \<Rightarrow> f y acc | None \<Rightarrow> acc) xs acc
   = fold f (List.map_filter g xs) acc"
  by (induction xs arbitrary: acc) (auto simp: List.map_filter_simps split: option.splits)

lemma fold_filter:
  "fold (\<lambda>x acc. if P x then f x acc else acc) xs acc = fold f (filter P xs) acc"
  by (induction xs arbitrary: acc) auto

lemma dict_get_update:
  "dict_get (AList.update k v d) k' dflt = (if k' = k then v else dict_get d k' dflt)"
  by (simp add: dict_get_def update_conv')

lemma map_of_rrf_add:
  "map_of (rrf_add i r acc) d
   = (if d = i then Some (dict_get acc i 0 + 1 / (60 + of_nat r)) else map_of acc d)"
  by (simp add: rrf_add_def update_conv' k_rrf_def)

lemma distinct_rrf_add: "distinct (map fst acc) \<Longrightarrow> distinct (map fst (rrf_add i r acc))"
  by (simp add: rrf_add_def distinct_update)

text \<open>A loop of \<^const>\<open>rrf_add\<close> over pairs (index, rank) with distinct indices adds to each
  index the term of its rank.\<close>

lemma fold_rrf_add:
  assumes "distinct (map fst items)"
  shows "map_of (fold (\<lambda>(i, r). rrf_add i r) items acc) d
         = (case map_of items d of
              None \<Rightarrow> map_of acc d
            | Some r \<Rightarrow> Some (dict_get acc d 0 + 1 / (60 + of_nat r)))"
  using assms
proof (induction items arbitrary: acc)
  case Nil
  then show ?case by simp
next
  case (Cons p items)
  obtain i r where p: "p = (i, r)" by (cases p)
  have n: "map_of items i = None"
    using Cons.prems p by (simp add: map_of_eq_None_iff)
  have "dict_get (rrf_add i r acc) d 0 = (if d = i then dict_get acc i 0 + 1 / (60 + of_nat r) else dict_get acc d 0)"
    by (simp add: dict_get_def map_of_rrf_add)
  then show ?case
    using Cons.IH [of "rrf_add i r acc"] Cons.prems p n
    by (auto simp: map_of_rrf_add split: option.splits)
qed

lemma fold_rrf_add_distinct:
  "distinct (map fst acc) \<Longrightarrow> distinct (map fst (fold (\<lambda>(i, r). rrf_add i r) items acc))"
  by (induction items arbitrary: acc) (auto simp: distinct_rrf_add)


subsection \<open>The two dictionaries keyed by content\<close>

lemma last_rank_in_None: "last_rank_in x xs = None \<longleftrightarrow> x \<notin> set xs"
  by (induction xs) (auto split: option.splits)

lemma last_rank_in_distinct: "distinct xs \<Longrightarrow> last_rank_in x xs = rank_in x xs"
proof (induction xs)
  case Nil
  then show ?case by simp
next
  case (Cons y ys)
  show ?case
  proof (cases "x = y")
    case True
    then have "last_rank_in x ys = None" using Cons.prems by (simp add: last_rank_in_None)
    then show ?thesis using True by simp
  next
    case False
    then show ?thesis using Cons by (cases "rank_in x ys") simp_all
  qed
qed

text \<open>A dictionary comprehension keeps, for each key, the index of its last occurrence.\<close>

lemma fold_update_lookup:
  "map_of (fold (\<lambda>(i, x) d. AList.update (k x) i d) (enumerate n xs) acc) c
   = (case last_rank_in c (map k xs) of Some r \<Rightarrow> Some (n + r) | None \<Rightarrow> map_of acc c)"
proof (induction xs arbitrary: n acc)
  case Nil
  then show ?case by simp
next
  case (Cons x xs)
  show ?case
    using Cons [of "Suc n" "AList.update (k x) n acc"]
    by (auto simp: update_conv' split: option.splits)
qed

lemma fold_update_keys:
  "distinct (map fst acc) \<Longrightarrow>
   distinct (map fst (fold (\<lambda>(i, x) d. AList.update (k x) i d) (enumerate n xs) acc))"
  by (induction xs arbitrary: n acc) (auto simp: distinct_update)

lemma dense_ranks_of_fold:
  "dense_ranks_of dense
   = fold (\<lambda>(i, x) d. AList.update (page_content (fst x)) i d) (enumerate 0 dense) []"
proof -
  have eq: "(\<lambda>(rank, (doc, score)) d. AList.update (page_content doc) rank d)
        = (\<lambda>(i, x) d. AList.update (page_content (fst x)) i d)"
    by (auto simp: fun_eq_iff)
  show ?thesis
    unfolding dense_ranks_of_def eq ..
qed

lemma dense_ranks_of_lookup:
  "map_of (dense_ranks_of dense) c = last_rank_in c (map (\<lambda>r. page_content (fst r)) dense)"
  using fold_update_lookup [of "\<lambda>r. page_content (fst r)" 0 dense "[]" c]
  by (simp add: dense_ranks_of_fold split: option.splits)

lemma dense_ranks_of_keys: "distinct (map fst (dense_ranks_of dense))"
  using fold_update_keys [of "[]" "\<lambda>r. page_content (fst r)" 0 dense]
  by (simp add: dense_ranks_of_fold)

lemma doc_content_to_index_of_distinct:
  assumes "distinct (map page_content docs)"
  shows "doc_content_to_index_of docs = zip (map page_content docs) [0..<length docs]"
  using fold_update_fresh [of "[]" page_content docs 0] assms
  by (simp add: doc_content_to_index_of_def)

lemma doc_index_lookup:
  assumes "distinct (map page_content docs)"
  shows "map_of (doc_content_to_index_of docs) c = Some i
         \<longleftrightarrow> i < length docs \<and> page_content (docs ! i) = c"
proof -
  have m: "map_of (doc_content_to_index_of docs) c = rank_in c (map page_content docs)"
    using map_of_zip_upt [of "map page_content docs" 0 c] assms
    by (simp add: doc_content_to_index_of_distinct option.map_ident)
  show ?thesis
  proof
    assume "map_of (doc_content_to_index_of docs) c = Some i"
    then have "i < length (map page_content docs) \<and> map page_content docs ! i = c"
      using m rank_in_Some [of c "map page_content docs" i] by simp
    then show "i < length docs \<and> page_content (docs ! i) = c"
      by auto
  next
    assume "i < length docs \<and> page_content (docs ! i) = c"
    then show "map_of (doc_content_to_index_of docs) c = Some i"
      using m rank_in_nth [of "map page_content docs" i] assms by auto
  qed
qed

lemma rrf_dense_items:
  "rrf_dense docs dense = fold (\<lambda>(i, r). rrf_add i r) (dense_items docs dense) []"
proof -
  have "(\<lambda>(content, rank) rrf_scores.
           case map_of (doc_content_to_index_of docs) content of
             Some doc_index \<Rightarrow> rrf_add doc_index rank rrf_scores
           | None \<Rightarrow> rrf_scores)
        = (\<lambda>x acc. case (case x of (content, rank) \<Rightarrow>
                            map_option (\<lambda>i. (i, rank)) (map_of (doc_content_to_index_of docs) content)) of
                      Some y \<Rightarrow> (case y of (i, r) \<Rightarrow> rrf_add i r) acc
                    | None \<Rightarrow> acc)"
    by (auto simp: fun_eq_iff split: option.splits)
  then show ?thesis
    by (simp add: rrf_dense_def dense_items_def Let_def fold_map_filter)
qed

lemma map_filter_index_lookup:
  assumes "distinct (map page_content docs)" and "d < length docs"
  shows "map_of (List.map_filter
                   (\<lambda>(content, rank). map_option (\<lambda>i. (i, rank))
                      (map_of (doc_content_to_index_of docs) content)) xs) d
         = map_of xs (page_content (docs ! d))"
proof (induction xs)
  case Nil
  then show ?case by (simp add: List.map_filter_simps)
next
  case (Cons x xs)
  obtain c r where x: "x = (c, r)" by (cases x)
  show ?case
  proof (cases "map_of (doc_content_to_index_of docs) c")
    case None
    then have "c \<noteq> page_content (docs ! d)"
      using doc_index_lookup [OF assms(1), of "page_content (docs ! d)" d] assms(2) by auto
    then show ?thesis using None x Cons by (simp add: List.map_filter_simps)
  next
    case (Some i)
    then have i: "i < length docs" "page_content (docs ! i) = c"
      using doc_index_lookup [OF assms(1), of c i] by auto
    have "i = d \<longleftrightarrow> c = page_content (docs ! d)"
      using i assms doc_index_lookup [OF assms(1), of c d] Some by auto
    then show ?thesis using Some x Cons by (auto simp: List.map_filter_simps)
  qed
qed

lemma map_filter_index_range:
  assumes "distinct (map page_content docs)" and "\<not> d < length docs"
  shows "map_of (List.map_filter
                   (\<lambda>(content, rank). map_option (\<lambda>i. (i, rank))
                      (map_of (doc_content_to_index_of docs) content)) xs) d = None"
proof (induction xs)
  case Nil
  then show ?case by (simp add: List.map_filter_simps)
next
  case (Cons x xs)
  obtain c r where x: "x = (c, r)" by (cases x)
  show ?case
    using Cons x doc_index_lookup [OF assms(1), of c] assms(2)
    by (cases "map_of (doc_content_to_index_of docs) c") (auto simp: List.map_filter_simps)
qed

lemma map_filter_index_distinct:
  assumes "distinct (map page_content docs)" and "distinct (map fst xs)"
  shows "distinct (map fst (List.map_filter
                   (\<lambda>(content, rank). map_option (\<lambda>i. (i, rank))
                      (map_of (doc_content_to_index_of docs) content)) xs))"
  using assms(2)
proof (induction xs)
  case Nil
  then show ?case by (simp add: List.map_filter_simps)
next
  case (Cons x xs)
  obtain c r where x: "x = (c, r)" by (cases x)
  show ?case
  proof (cases "map_of (doc_content_to_index_of docs) c")
    case None
    then show ?thesis using Cons x by (simp add: List.map_filter_simps)
  next
    case (Some i)
    then have i: "i < length docs" "page_content (docs ! i) = c"
      using doc_index_lookup [OF assms(1), of c i] by auto
    have "map_of (List.map_filter
                   (\<lambda>(content, rank). map_option (\<lambda>i. (i, rank))
                      (map_of (doc_content_to_index_of docs) content)) xs) i
          = map_of xs c"
      using map_filter_index_lookup [OF assms(1) i(1), of xs] i(2) by simp
    also have "\<dots> = None" using Cons.prems x by (simp add: map_of_eq_None_iff)
    finally have "i \<notin> fst ` set (List.map_filter
                   (\<lambda>(content, rank). map_option (\<lambda>i. (i, rank))
                      (map_of (doc_content_to_index_of docs) content)) xs)"
      by (simp add: map_of_eq_None_iff)
    then show ?thesis using Some x Cons by (simp add: List.map_filter_simps)
  qed
qed

lemma dense_items_lookup:
  assumes "distinct (map page_content docs)"
  shows "map_of (dense_items docs dense) d
         = (if d < length docs
            then last_rank_in (page_content (docs ! d)) (map (\<lambda>r. page_content (fst r)) dense)
            else None)"
proof (cases "d < length docs")
  case True
  then show ?thesis
    using map_filter_index_lookup [OF assms True, of "dense_ranks_of dense"]
    by (simp add: dense_items_def dense_ranks_of_lookup)
next
  case False
  then show ?thesis
    using map_filter_index_range [OF assms False, of "dense_ranks_of dense"]
    by (simp add: dense_items_def)
qed

lemma dense_items_distinct:
  assumes "distinct (map page_content docs)"
  shows "distinct (map fst (dense_items docs dense))"
  using map_filter_index_distinct [OF assms dense_ranks_of_keys]
  by (simp add: dense_items_def)


subsection \<open>Descending stable sorting\<close>

lemma set_sorted_reverse [simp]: "set (sorted_reverse f xs) = set xs"
  by (simp add: sorted_reverse_def)

lemma length_sorted_reverse [simp]: "length (sorted_reverse f xs) = length xs"
  by (simp add: sorted_reverse_def)

lemma distinct_sorted_reverse [simp]: "distinct (sorted_reverse f xs) = distinct xs"
  by (simp add: sorted_reverse_def)

lemma sorted_reverse_descending: "sorted_wrt (\<lambda>a b. f b \<le> f a) (sorted_reverse f xs)"
proof -
  have "sorted (map f (sort_key f (rev xs)))" by (rule sorted_sort_key)
  then have "sorted_wrt (\<lambda>a b. f a \<le> f b) (sort_key f (rev xs))"
    by (simp add: sorted_map)
  then show ?thesis
    by (simp add: sorted_reverse_def sorted_wrt_rev)
qed

lemma sorted_reverse_nth:
  assumes "i < j" and "j < length xs"
  shows "f (sorted_reverse f xs ! j) \<le> f (sorted_reverse f xs ! i)"
  using sorted_wrt_nth_less [OF sorted_reverse_descending, of i j f xs] assms by simp

text \<open>The front of a descending list dominates the rest.\<close>

lemma take_descending_dominates:
  assumes "sorted_wrt (\<lambda>a b. f b \<le> f a) xs"
    and "c \<in> set (take K xs)" and "d \<in> set xs" and "d \<notin> set (take K xs)"
  shows "f d \<le> f c"
proof -
  have "d \<in> set (drop K xs)"
    using assms(3,4) by (metis Un_iff append_take_drop_id set_append)
  moreover have "sorted_wrt (\<lambda>a b. f b \<le> f a) (take K xs @ drop K xs)"
    using assms(1) by simp
  ultimately show ?thesis
    using assms(2) unfolding sorted_wrt_append by blast
qed

lemma sparse_ranked_indices_set [simp]:
  "set (sparse_ranked_indices sparse_scores) = {0..<length sparse_scores}"
  by (simp add: sparse_ranked_indices_def)

lemma sparse_ranked_indices_distinct [simp]:
  "distinct (sparse_ranked_indices sparse_scores)"
  by (simp add: sparse_ranked_indices_def)

subsection \<open>The sparse loop\<close>

lemma rrf_sparse_items:
  "rrf_sparse K sparse_scores acc
   = fold (\<lambda>(i, r). rrf_add i r) (sparse_items K sparse_scores) acc"
proof -
  have eq: "(\<lambda>(rank, doc_index) rrf.
              if sparse_scores ! doc_index > 0 then rrf_add doc_index rank rrf else rrf)
            = (\<lambda>x acc. if (case x of (r, i) \<Rightarrow> sparse_scores ! i > 0)
                         then ((\<lambda>(i, r). rrf_add i r) \<circ> (\<lambda>(r, i). (i, r))) x acc else acc)"
    by (auto simp: fun_eq_iff)
  show ?thesis
    unfolding rrf_sparse_def sparse_items_def eq fold_filter fold_map ..
qed

lemma swapped_enumerate_lookup:
  "map_of (map (\<lambda>(r, i). (i, r)) (filter (\<lambda>(r, i). P i) (enumerate n xs))) d
   = (if P d then map_option (\<lambda>r. n + r) (rank_in d xs) else None)"
proof (induction xs arbitrary: n)
  case Nil
  then show ?case by simp
next
  case (Cons x xs)
  have "(\<lambda>r. Suc (n + r)) = (+) (Suc n)" by auto
  then show ?case using Cons [of "Suc n"]
    by (auto simp: option.map_comp comp_def)
qed

lemma swapped_enumerate_keys:
  "map fst (map (\<lambda>(r, i). (i, r)) (filter (\<lambda>(r, i). P i) (enumerate n xs))) = filter P xs"
  by (induction xs arbitrary: n) auto

lemma sparse_items_lookup:
  "map_of (sparse_items K sparse_scores) d
   = (if sparse_scores ! d > 0
      then rank_in d (take (K * 2) (sparse_ranked_indices sparse_scores))
      else None)"
proof -
  have "(+) (0::nat) = (\<lambda>r. r)" by auto
  then show ?thesis
    using swapped_enumerate_lookup [of "\<lambda>i. sparse_scores ! i > 0" 0]
    by (simp add: sparse_items_def option.map_ident)
qed

lemma sparse_items_distinct: "distinct (map fst (sparse_items K sparse_scores))"
  unfolding sparse_items_def swapped_enumerate_keys by simp

lemma sparse_items_range:
  assumes "\<not> d < length sparse_scores"
  shows "map_of (sparse_items K sparse_scores) d = None"
proof -
  have "d \<notin> set (take (K * 2) (sparse_ranked_indices sparse_scores))"
    using assms in_set_takeD [of d "K * 2" "sparse_ranked_indices sparse_scores"] by auto
  then show ?thesis
    by (simp add: sparse_items_lookup rank_in_None)
qed

lemma rrf_sparse_nothing:
  assumes "\<forall>s \<in> set sparse_scores. s \<le> 0"
  shows "rrf_sparse K sparse_scores acc = acc"
proof -
  have "\<And>r i. (r, i) \<in> set (enumerate 0 (take (K * 2) (sparse_ranked_indices sparse_scores)))
          \<Longrightarrow> \<not> sparse_scores ! i > 0"
  proof -
    fix r i
    define top where "top = take (K * 2) (sparse_ranked_indices sparse_scores)"
    assume "(r, i) \<in> set (enumerate 0 (take (K * 2) (sparse_ranked_indices sparse_scores)))"
    then have "r < length top \<and> top ! r = i"
      unfolding top_def [symmetric] by (simp add: in_set_enumerate_eq)
    then have "i \<in> set top" by auto
    then have "i \<in> set (take (K * 2) (sparse_ranked_indices sparse_scores))"
      by (simp add: top_def)
    then have "i < length sparse_scores"
      using in_set_takeD [of i "K * 2" "sparse_ranked_indices sparse_scores"] by auto
    then show "\<not> sparse_scores ! i > 0"
      using assms nth_mem [of i sparse_scores] by (auto simp: not_less)
  qed
  then have "filter (\<lambda>(r, i). sparse_scores ! i > 0)
               (enumerate 0 (take (K * 2) (sparse_ranked_indices sparse_scores))) = []"
    by (auto simp: filter_empty_conv)
  then show ?thesis
    by (simp add: rrf_sparse_items sparse_items_def)
qed


subsection \<open>The fused scores\<close>

lemma rrf_term_pos: "0 < rrf_term (Some r)" and rrf_term_None: "rrf_term None = 0"
  by (simp_all add: rrf_term_def add_pos_nonneg)

lemma fused_lookup:
  assumes "distinct (map fst DI)" and "distinct (map fst SI)"
  shows "map_of (fold (\<lambda>(i, r). rrf_add i r) SI (fold (\<lambda>(i, r). rrf_add i r) DI [])) d
         = (if map_of DI d = None \<and> map_of SI d = None then None
            else Some (rrf_term (map_of DI d) + rrf_term (map_of SI d)))"
proof -
  have a: "map_of (fold (\<lambda>(i, r). rrf_add i r) DI []) d
           = (case map_of DI d of None \<Rightarrow> None | Some r \<Rightarrow> Some (1 / (60 + of_nat r)))"
    using fold_rrf_add [OF assms(1), of "[]" d] by (simp add: dict_get_def split: option.splits)
  show ?thesis
    using fold_rrf_add [OF assms(2), of "fold (\<lambda>(i, r). rrf_add i r) DI []" d] a
    by (auto simp: dict_get_def rrf_term_def split: option.splits)
qed

lemma sparse_items_term:
  "rrf_term (map_of (sparse_items K sparse_scores) d) = sparse_term K sparse_scores d"
proof (cases "d < length sparse_scores")
  case True
  then show ?thesis
    by (simp add: sparse_items_lookup sparse_term_def rrf_term_None mult.commute)
next
  case False
  then show ?thesis
    by (simp add: sparse_items_range sparse_term_def rrf_term_None)
qed

lemma sparse_only_scores:
  "dict_get (rrf_sparse K sparse_scores []) d 0 = sparse_term K sparse_scores d"
proof -
  have "map_of (rrf_sparse K sparse_scores []) d
        = (case map_of (sparse_items K sparse_scores) d of
             None \<Rightarrow> None | Some r \<Rightarrow> Some (1 / (60 + of_nat r)))"
    using fold_rrf_add [OF sparse_items_distinct, of K sparse_scores "[]" d]
    by (simp add: rrf_sparse_items dict_get_def split: option.splits)
  then have "dict_get (rrf_sparse K sparse_scores []) d 0
             = rrf_term (map_of (sparse_items K sparse_scores) d)"
    by (simp add: dict_get_def rrf_term_def split: option.splits)
  then show ?thesis by (simp add: sparse_items_term)
qed

lemma rrf_fusion_aligned:
  assumes "length sparse_scores = length docs \<or> sparse_scores = []"
  shows "rrf_fusion docs K dense sparse_scores
         = Inr (rrf_sparse K sparse_scores (rrf_dense docs dense))"
proof (cases "length sparse_scores = length docs")
  case True
  then show ?thesis by (simp add: rrf_fusion_def)
next
  case False
  then have "sparse_scores = []" using assms by simp
  then show ?thesis using False rrf_sparse_nothing [of "[]" K] by (simp add: rrf_fusion_def)
qed

lemma fused_scores_by_content:
  assumes "distinct (map page_content docs)"
    and "d < length docs"
  shows "map_of (rrf_sparse K sparse_scores (rrf_dense docs dense)) d
         = (if 0 < fused_by_content docs K dense sparse_scores d
            then Some (fused_by_content docs K dense sparse_scores d) else None)"
proof -
  let ?dr = "last_rank_in (page_content (docs ! d)) (map (\<lambda>r. page_content (fst r)) dense)"
  let ?sr = "map_of (sparse_items K sparse_scores) d"
  have dd: "distinct (map fst (dense_items docs dense))"
    using assms(1) by (rule dense_items_distinct)
  have sd: "distinct (map fst (sparse_items K sparse_scores))"
    by (rule sparse_items_distinct)
  have di: "map_of (dense_items docs dense) d = ?dr"
    using dense_items_lookup [OF assms(1), of dense d] assms(2) by simp
  have f: "fused_by_content docs K dense sparse_scores d = rrf_term ?dr + rrf_term ?sr"
    by (simp add: fused_by_content_def sparse_items_term)
  have m: "map_of (rrf_sparse K sparse_scores (rrf_dense docs dense)) d
        = (if ?dr = None \<and> ?sr = None then None else Some (rrf_term ?dr + rrf_term ?sr))"
    using fused_lookup [OF dd sd, of d] di
    by (simp add: rrf_sparse_items rrf_dense_items)
  have nn: "0 \<le> rrf_term ?dr" "0 \<le> rrf_term ?sr"
    by (simp_all add: rrf_term_def split: option.splits)
  have "0 < rrf_term ?dr + rrf_term ?sr \<longleftrightarrow> \<not> (?dr = None \<and> ?sr = None)"
  proof (cases ?dr)
    case None
    then show ?thesis
      using rrf_term_pos rrf_term_None by (cases ?sr) auto
  next
    case (Some r)
    then show ?thesis
      using rrf_term_pos [of r] nn(2) by auto
  qed
  then show ?thesis using m f by auto
qed

lemma fused_keys_in_corpus:
  assumes "distinct (map page_content docs)"
    and "length sparse_scores = length docs \<or> sparse_scores = []"
    and "\<not> d < length docs"
  shows "map_of (rrf_sparse K sparse_scores (rrf_dense docs dense)) d = None"
proof -
  have "\<not> d < length sparse_scores" using assms(2,3) by auto
  then have "map_of (sparse_items K sparse_scores) d = None"
    by (rule sparse_items_range)
  moreover have "map_of (dense_items docs dense) d = None"
    using dense_items_lookup [OF assms(1), of dense d] assms(3) by simp
  moreover have dd: "distinct (map fst (dense_items docs dense))"
    using assms(1) by (rule dense_items_distinct)
  moreover have sd: "distinct (map fst (sparse_items K sparse_scores))"
    by (rule sparse_items_distinct)
  ultimately show ?thesis
    using fused_lookup [OF dd sd, of d]
    by (simp add: rrf_sparse_items rrf_dense_items)
qed

lemma fused_keys_distinct:
  "distinct (map fst (rrf_sparse K sparse_scores (rrf_dense docs dense)))"
  by (simp add: rrf_sparse_items rrf_dense_items fold_rrf_add_distinct)


lemma twin_fusion: "rrf_fusion twin_docs 20 twin_dense [] = Inr [(1, 1 / 60)]"
  by (simp add: rrf_fusion_def rrf_dense_def doc_content_to_index_of_def dense_ranks_of_def
      rrf_add_def dict_get_def twin_docs_def twin_dense_def doc_of_def k_rrf_def)

text \<open>
  C2, as stated, fails where two corpus documents share their text: the first of the twin
  documents is the dense result of rank 0, so its fused score should be \<open>1/60\<close>, but the
  code credits the score to the second (the content dictionary keeps the last index) and
  the first has none.
\<close>

theorem fused_score_joined_by_content:
  "fst (twin_dense ! 0) = twin_docs ! 0 \<and>
   rrf_fusion twin_docs 20 twin_dense [] = Inr [(1, 1 / 60)] \<and>
   fused_claimed twin_docs 20 twin_dense [] 0 = 1 / 60 \<and>
   dict_get [(1 :: nat, 1 / 60 :: rat)] 0 0 = 0 \<and>
   dict_get [(1 :: nat, 1 / 60 :: rat)] 0 0 \<noteq> fused_claimed twin_docs 20 twin_dense [] 0 \<and>
   top_indices_for_reranking 20 [(1, 1 / 60)] = [1]"
  by (simp add: twin_fusion, simp add: dict_get_def fused_claimed_def sparse_term_def
      rrf_term_def twin_docs_def twin_dense_def top_indices_for_reranking_def
      sorted_reverse_def)

lemma two_fusion:
  "rrf_fusion two_docs 20 two_dense [1, 2] = Inr [(0, 1 / 60 + 1 / 61), (1, 1 / 61 + 1 / 60)]"
  by code_simp

lemma two_top:
  "top_indices_for_reranking 20 [(0, 1 / 60 + 1 / 61), (1, 1 / 61 + 1 / 60)] = [0, 1]"
  by (simp add: top_indices_for_reranking_def sorted_reverse_def dict_get_def)

lemma sparse_only_retrieve:
  "fst (retrieve_documents sparse_only_bot ''fever'') = Inr []"
  by (simp add: retrieve_documents_def retrieve_body_def sparse_only_bot_def quiet_bot_def)

lemma fever_tokens: "simple_tokenizer (PyStr ''fever'') = [''fever'']"
  by (simp add: lower_def lower_char_def is_word_char_def)

lemma empty_dense_retrieve:
  "fst (retrieve_documents empty_dense_bot ''fever'') = Inr [doc_of ''fever guidance'' ''g.pdf'']"
  by code_simp

lemma top_indices_facts:
  assumes "distinct (map fst rrf_scores)"
  shows "length (top_indices_for_reranking K rrf_scores) = min K (length rrf_scores)"
    and "distinct (top_indices_for_reranking K rrf_scores)"
    and "set (top_indices_for_reranking K rrf_scores) \<subseteq> fst ` set rrf_scores"
    and "sorted_wrt (\<lambda>a b. dict_get rrf_scores b 0 \<le> dict_get rrf_scores a 0)
           (top_indices_for_reranking K rrf_scores)"
    and "\<forall>c \<in> set (top_indices_for_reranking K rrf_scores).
           \<forall>d \<in> fst ` set rrf_scores - set (top_indices_for_reranking K rrf_scores).
             dict_get rrf_scores d 0 \<le> dict_get rrf_scores c 0"
proof -
  let ?f = "\<lambda>idx. dict_get rrf_scores idx 0"
  let ?s = "sorted_reverse ?f (map fst rrf_scores)"
  have s: "sorted_wrt (\<lambda>a b. ?f b \<le> ?f a) ?s" by (rule sorted_reverse_descending)
  show "length (top_indices_for_reranking K rrf_scores) = min K (length rrf_scores)"
    by (simp add: top_indices_for_reranking_def min.commute)
  show "distinct (top_indices_for_reranking K rrf_scores)"
    using assms by (simp add: top_indices_for_reranking_def)
  show "set (top_indices_for_reranking K rrf_scores) \<subseteq> fst ` set rrf_scores"
    using set_take_subset [of K ?s] by (simp add: top_indices_for_reranking_def)
  show "sorted_wrt (\<lambda>a b. ?f b \<le> ?f a) (top_indices_for_reranking K rrf_scores)"
    using s sorted_wrt_take [of "\<lambda>a b. ?f b \<le> ?f a" ?s K]
    by (simp add: top_indices_for_reranking_def)
  show "\<forall>c \<in> set (top_indices_for_reranking K rrf_scores).
           \<forall>d \<in> fst ` set rrf_scores - set (top_indices_for_reranking K rrf_scores).
             ?f d \<le> ?f c"
  proof (intro ballI)
    fix c d
    assume c: "c \<in> set (top_indices_for_reranking K rrf_scores)"
      and d: "d \<in> fst ` set rrf_scores - set (top_indices_for_reranking K rrf_scores)"
    have "d \<in> set ?s" using d by simp
    moreover have "d \<notin> set (take K ?s)" using d by (simp add: top_indices_for_reranking_def)
    moreover have "c \<in> set (take K ?s)" using c by (simp add: top_indices_for_reranking_def)
    ultimately show "?f d \<le> ?f c"
      using take_descending_dominates [OF s] by blast
  qed
qed

lemma lookup_all_in_range:
  "\<forall>i \<in> set indices. i < length xs \<Longrightarrow> lookup_all xs indices = Inr (map (\<lambda>i. xs ! i) indices)"
  by (induction indices) simp_all

text \<open>
  C2, amended. For a corpus with pairwise distinct \<^verbatim>\<open>page_content\<close> and sparse scores
  aligned with the corpus (or none), the fusion does not raise, and the fused score of
  every corpus document \<open>d\<close> is \<open>1 / (60 + r)\<close> for the rank \<open>r\<close> of the dense result
  with \<open>d\<close>'s content (the last such result, should the dense list hold several), plus
  \<open>1 / (60 + r')\<close> for \<open>d\<close>'s rank \<open>r'\<close> among the top \<open>2 \<times> K\<close> documents by sparse
  score when \<open>d\<close>'s sparse score is above zero; a zero or missing sparse score adds
  nothing. The scored documents are those with a positive fused score. The sparse ranking
  is a descending arrangement of all indices, and the candidates are \<open>K\<close> scored documents
  (all, if fewer), in descending order of fused score, none scored lower than a document
  left out; the candidate documents are the corpus documents at these indices. (Scores are
  exact rationals here.)
\<close>

theorem rrf_fusion_by_content:
  assumes "distinct (map page_content docs)"
    and "length sparse_scores = length docs \<or> sparse_scores = []"
  shows "\<exists>rrf_scores.
           rrf_fusion docs K dense sparse_scores = Inr rrf_scores
         \<and> (\<forall>d. d < length docs \<longrightarrow>
                dict_get rrf_scores d 0 = fused_by_content docs K dense sparse_scores d)
         \<and> (\<forall>d. d \<in> fst ` set rrf_scores \<longleftrightarrow>
                d < length docs \<and> 0 < fused_by_content docs K dense sparse_scores d)
         \<and> (\<forall>d. \<not> (d < length sparse_scores \<and> 0 < sparse_scores ! d) \<longrightarrow>
                sparse_term K sparse_scores d = 0)
         \<and> set (sparse_ranked_indices sparse_scores) = {0..<length sparse_scores}
         \<and> distinct (sparse_ranked_indices sparse_scores)
         \<and> sorted_wrt (\<lambda>a b. sparse_scores ! b \<le> sparse_scores ! a)
              (sparse_ranked_indices sparse_scores)
         \<and> length (top_indices_for_reranking K rrf_scores) = min K (length rrf_scores)
         \<and> distinct (top_indices_for_reranking K rrf_scores)
         \<and> set (top_indices_for_reranking K rrf_scores) \<subseteq> fst ` set rrf_scores
         \<and> sorted_wrt (\<lambda>a b. dict_get rrf_scores b 0 \<le> dict_get rrf_scores a 0)
              (top_indices_for_reranking K rrf_scores)
         \<and> (\<forall>c \<in> set (top_indices_for_reranking K rrf_scores).
               \<forall>d \<in> fst ` set rrf_scores - set (top_indices_for_reranking K rrf_scores).
                 dict_get rrf_scores d 0 \<le> dict_get rrf_scores c 0)
         \<and> lookup_all docs (top_indices_for_reranking K rrf_scores)
             = Inr (map (\<lambda>i. docs ! i) (top_indices_for_reranking K rrf_scores))"
proof -
  let ?rrf = "rrf_sparse K sparse_scores (rrf_dense docs dense)"
  have f: "rrf_fusion docs K dense sparse_scores = Inr ?rrf"
    using assms(2) by (rule rrf_fusion_aligned)
  have m: "\<And>d. d < length docs \<Longrightarrow>
             map_of ?rrf d = (if 0 < fused_by_content docs K dense sparse_scores d
                              then Some (fused_by_content docs K dense sparse_scores d) else None)"
    using fused_scores_by_content [OF assms(1)] by blast
  have n: "\<And>d. \<not> d < length docs \<Longrightarrow> map_of ?rrf d = None"
    using fused_keys_in_corpus [OF assms] by blast
  have scores: "\<forall>d. d < length docs \<longrightarrow>
                  dict_get ?rrf d 0 = fused_by_content docs K dense sparse_scores d"
  proof (intro allI impI)
    fix d assume d: "d < length docs"
    have "0 \<le> fused_by_content docs K dense sparse_scores d"
      by (simp add: fused_by_content_def sparse_term_def rrf_term_def split: option.splits)
    then show "dict_get ?rrf d 0 = fused_by_content docs K dense sparse_scores d"
      using m [OF d] by (auto simp: dict_get_def)
  qed
  have keys: "\<forall>d. d \<in> fst ` set ?rrf \<longleftrightarrow>
                d < length docs \<and> 0 < fused_by_content docs K dense sparse_scores d"
  proof
    fix d
    have "d \<in> fst ` set ?rrf \<longleftrightarrow> map_of ?rrf d \<noteq> None"
      by (simp add: map_of_eq_None_iff)
    then show "d \<in> fst ` set ?rrf \<longleftrightarrow>
                d < length docs \<and> 0 < fused_by_content docs K dense sparse_scores d"
      using m [of d] n [of d] by (cases "d < length docs") auto
  qed
  have zero: "\<forall>d. \<not> (d < length sparse_scores \<and> 0 < sparse_scores ! d) \<longrightarrow>
                sparse_term K sparse_scores d = 0"
    by (simp add: sparse_term_def)
  have ranking: "sorted_wrt (\<lambda>a b. sparse_scores ! b \<le> sparse_scores ! a)
              (sparse_ranked_indices sparse_scores)"
    unfolding sparse_ranked_indices_def by (rule sorted_reverse_descending)
  have r1: "set (sparse_ranked_indices sparse_scores) = {0..<length sparse_scores}"
    by (rule sparse_ranked_indices_set)
  have r2: "distinct (sparse_ranked_indices sparse_scores)"
    by (rule sparse_ranked_indices_distinct)
  have dk: "distinct (map fst ?rrf)" by (rule fused_keys_distinct)
  note t = top_indices_facts [OF dk, of K]
  have "\<forall>i \<in> set (top_indices_for_reranking K ?rrf). i < length docs"
    using t(3) keys by blast
  then have docs: "lookup_all docs (top_indices_for_reranking K ?rrf)
             = Inr (map (\<lambda>i. docs ! i) (top_indices_for_reranking K ?rrf))"
    by (rule lookup_all_in_range)
  show ?thesis
    by (rule exI [of _ ?rrf], intro conjI)
      (fact f scores keys zero ranking r1 r2 t docs)+
qed

theorem rrf_fusion_by_content_witness:
  "distinct (map page_content two_docs)
   \<and> rrf_fusion two_docs 20 two_dense [1, 2]
       = Inr [(0, 1 / 60 + 1 / 61), (1, 1 / 61 + 1 / 60)]
   \<and> fused_by_content two_docs 20 two_dense [1, 2] 0 = 1 / 60 + 1 / 61
   \<and> fused_by_content two_docs 20 two_dense [1, 2] 1 = 1 / 61 + 1 / 60
   \<and> top_indices_for_reranking 20 [(0, 1 / 60 + 1 / 61), (1, 1 / 61 + 1 / 60)] = [0, 1]"
proof -
  have a: "distinct (map page_content two_docs)"
    by (simp add: two_docs_def doc_of_def)
  have c: "length [1, 2 :: rat] = length two_docs \<or> [1, 2 :: rat] = []"
    by (simp add: two_docs_def)
  obtain rrf_scores where r: "rrf_fusion two_docs 20 two_dense [1, 2] = Inr rrf_scores"
    and s: "\<forall>d. d < length two_docs \<longrightarrow>
              dict_get rrf_scores d 0 = fused_by_content two_docs 20 two_dense [1, 2] d"
    using rrf_fusion_by_content [OF a c, of 20 two_dense]
    by (elim exE conjE) (rule that, assumption+)
  have e: "rrf_scores = [(0, 1 / 60 + 1 / 61), (1, 1 / 61 + 1 / 60)]"
    using r two_fusion by simp
  have "fused_by_content two_docs 20 two_dense [1, 2] 0 = 1 / 60 + 1 / 61"
    using s [rule_format, of 0] e by (simp add: two_docs_def dict_get_def)
  moreover have "fused_by_content two_docs 20 two_dense [1, 2] 1 = 1 / 61 + 1 / 60"
    using s [rule_format, of 1] e by (simp add: two_docs_def dict_get_def)
  ultimately show ?thesis using a two_fusion two_top by simp
qed


text \<open>
  C3, as stated, fails: without a vector store the code returns the empty list at once,
  where sparse-only fusion (the same bot with a dense search that finds nothing) returns
  the document the sparse search scored.
\<close>

theorem missing_vectorstore_not_sparse_only:
  "vectorstore sparse_only_bot = None \<and>
   fst (retrieve_documents sparse_only_bot ''fever'') = Inr [] \<and>
   vectorstore empty_dense_bot \<noteq> None \<and>
   fst (retrieve_documents empty_dense_bot ''fever'')
     = Inr [doc_of ''fever guidance'' ''g.pdf''] \<and>
   fst (retrieve_documents sparse_only_bot ''fever'')
     \<noteq> fst (retrieve_documents empty_dense_bot ''fever'')"
  using sparse_only_retrieve empty_dense_retrieve
  by (simp add: sparse_only_bot_def empty_dense_bot_def quiet_bot_def)

lemma rerank_documents_Nil: "rerank_documents self query [] = ([], self)"
  by (simp add: rerank_documents_def)

lemma top_indices_Nil: "top_indices_for_reranking K [] = []"
  by (simp add: top_indices_for_reranking_def sorted_reverse_def)

lemma rrf_dense_Nil: "rrf_dense docs [] = []"
  by (simp add: rrf_dense_def dense_ranks_of_def)

lemma retrieve_documents_returns: "\<exists>ds. fst (retrieve_documents self query) = Inr ds"
  by (cases "retrieve_body self query"; cases "fst (retrieve_body self query)")
     (auto simp: retrieve_documents_def)

lemma nothing_retrieved:
  assumes "vectorstore self = Some vs" and "vs query (over_retrieve_k self) = Inr []"
    and "sparse_search self query = Inr sparse_scores" and "\<forall>s \<in> set sparse_scores. s \<le> 0"
  shows "retrieve_documents self query = (Inr [], self)"
proof -
  have "rrf_fusion (all_documents self) (over_retrieve_k self) [] sparse_scores = Inr []
        \<or> (\<exists>e. rrf_fusion (all_documents self) (over_retrieve_k self) [] sparse_scores = Inl e)"
    using rrf_sparse_nothing [OF assms(4)] by (simp add: rrf_fusion_def rrf_dense_Nil)
  then show ?thesis
    using assms(1,2,3)
    by (auto simp: retrieve_documents_def retrieve_body_def top_indices_Nil
        rerank_documents_Nil)
qed

text \<open>
  C3, amended. Without a vector store \<^verbatim>\<open>retrieve_documents\<close> returns the empty list and
  leaves the bot as it was, with no fusion. With dense results empty the fusion depends on
  the sparse scores alone: the fused score of \<open>d\<close> is its sparse contribution. If the
  dense search finds nothing and the sparse search gives no score above zero,
  \<^verbatim>\<open>retrieve_documents\<close> returns the empty list. It never raises.
\<close>

theorem retrieve_degradation:
  "(vectorstore self = None \<longrightarrow> retrieve_documents self query = (Inr [], self))
   \<and> (length sparse_scores = length docs \<longrightarrow>
        (\<exists>rrf_scores. rrf_fusion docs K [] sparse_scores = Inr rrf_scores
           \<and> (\<forall>d. dict_get rrf_scores d 0 = sparse_term K sparse_scores d)))
   \<and> ((\<exists>vs. vectorstore self = Some vs \<and> vs query (over_retrieve_k self) = Inr [])
        \<and> (\<exists>found. sparse_search self query = Inr found \<and> (\<forall>s \<in> set found. s \<le> 0))
      \<longrightarrow> retrieve_documents self query = (Inr [], self))
   \<and> (\<exists>ds. fst (retrieve_documents self query) = Inr ds)"
proof (intro conjI)
  show "vectorstore self = None \<longrightarrow> retrieve_documents self query = (Inr [], self)"
    by (simp add: retrieve_documents_def retrieve_body_def)
  show "length sparse_scores = length docs \<longrightarrow>
        (\<exists>rrf_scores. rrf_fusion docs K [] sparse_scores = Inr rrf_scores
           \<and> (\<forall>d. dict_get rrf_scores d 0 = sparse_term K sparse_scores d))"
  proof
    assume "length sparse_scores = length docs"
    then have "rrf_fusion docs K [] sparse_scores = Inr (rrf_sparse K sparse_scores [])"
      by (simp add: rrf_fusion_def rrf_dense_Nil)
    then show "\<exists>rrf_scores. rrf_fusion docs K [] sparse_scores = Inr rrf_scores
           \<and> (\<forall>d. dict_get rrf_scores d 0 = sparse_term K sparse_scores d)"
      using sparse_only_scores [of K sparse_scores] by simp
  qed
  show "(\<exists>vs. vectorstore self = Some vs \<and> vs query (over_retrieve_k self) = Inr [])
        \<and> (\<exists>found. sparse_search self query = Inr found \<and> (\<forall>s \<in> set found. s \<le> 0))
      \<longrightarrow> retrieve_documents self query = (Inr [], self)"
    using nothing_retrieved by blast
  show "\<exists>ds. fst (retrieve_documents self query) = Inr ds"
    by (rule retrieve_documents_returns)
qed

theorem retrieve_degradation_witness:
  "vectorstore sparse_only_bot = None
   \<and> retrieve_documents sparse_only_bot ''fever'' = (Inr [], sparse_only_bot)
   \<and> rrf_fusion [doc_of ''fever guidance'' ''g.pdf''] 20 [] [3] = Inr [(0, 1 / 60)]
   \<and> sparse_term 20 [3] 0 = 1 / 60
   \<and> sparse_search no_match_bot ''fever'' = Inr [0]
   \<and> retrieve_documents no_match_bot ''fever'' = (Inr [], no_match_bot)"
proof -
  note w1 = retrieve_degradation [of sparse_only_bot "''fever''" "[3]"
      "[doc_of ''fever guidance'' ''g.pdf'']" 20]
  note w2 = retrieve_degradation [of no_match_bot "''fever''" "[]" "[]" 20]
  have v: "vectorstore sparse_only_bot = None"
    by (simp add: sparse_only_bot_def quiet_bot_def)
  have a: "retrieve_documents sparse_only_bot ''fever'' = (Inr [], sparse_only_bot)"
    using w1 v by blast
  have b: "rrf_fusion [doc_of ''fever guidance'' ''g.pdf''] 20 [] [3] = Inr [(0, 1 / 60)]"
    by code_simp
  have "length [3 :: rat] = length [doc_of ''fever guidance'' ''g.pdf'']" by simp
  then obtain rrf_scores where
    r: "rrf_fusion [doc_of ''fever guidance'' ''g.pdf''] 20 [] [3] = Inr rrf_scores"
    and d: "dict_get rrf_scores 0 0 = sparse_term 20 [3] 0"
    using w1 by blast
  have "rrf_scores = [(0, 1 / 60)]" using r b by simp
  then have "dict_get rrf_scores 0 0 = 1 / 60" by (simp add: dict_get_def)
  then have c: "sparse_term 20 [3] 0 = 1 / 60"
    using d by simp
  have vs: "vectorstore no_match_bot = Some (\<lambda>query k. Inr [])"
    "over_retrieve_k no_match_bot = 20"
    by (simp_all add: no_match_bot_def empty_dense_bot_def sparse_only_bot_def quiet_bot_def)
  have sp: "sparse_search no_match_bot ''fever'' = Inr [0]"
    by (simp add: sparse_search_def no_match_bot_def empty_dense_bot_def sparse_only_bot_def
        quiet_bot_def lower_def lower_char_def is_word_char_def)
  have "(\<exists>vs. vectorstore no_match_bot = Some vs \<and> vs ''fever'' (over_retrieve_k no_match_bot) = Inr [])
        \<and> (\<exists>found. sparse_search no_match_bot ''fever'' = Inr found \<and> (\<forall>s \<in> set found. s \<le> 0))"
    using vs sp by simp
  then have e: "retrieve_documents no_match_bot ''fever'' = (Inr [], no_match_bot)"
    using w2 by blast
  show ?thesis using v a b c sp e by simp
qed

text \<open>A query without tokens skips the sparse search, and the fusion then holds the dense
  contributions only.\<close>

lemma empty_query_skips_sparse:
  assumes "simple_tokenizer (PyStr query) = []"
  shows "sparse_search self query = Inr []"
    and "rrf_fusion docs K dense [] = Inr (rrf_dense docs dense)"
proof -
  show "sparse_search self query = Inr []"
    using assms by (simp add: sparse_search_def split: option.splits)
  have "rrf_sparse K [] (rrf_dense docs dense) = rrf_dense docs dense"
    using rrf_sparse_nothing [of "[]" K] by simp
  then show "rrf_fusion docs K dense [] = Inr (rrf_dense docs dense)"
    using rrf_fusion_aligned [of "[]" docs K dense] by simp
qed

section \<open>The generation coordinator\<close>

text \<open>
  C10. A run of \<^verbatim>\<open>generate_response_stream\<close> whose accumulated answer is empty, or whose
  question is empty, leaves the bot (and so the history) as it was; whenever the history
  differs afterwards, question and answer were both non-empty and the bot is the result of
  one \<^verbatim>\<open>add_to_history\<close> of that pair.
\<close>

theorem history_needs_question_and_answer:
  "(question = [] \<or>
      full_response_for_history (generate_response_stream self run question documents) = []
    \<longrightarrow> self_after (generate_response_stream self run question documents) = self)
   \<and> (conversation_history (self_after (generate_response_stream self run question documents))
        \<noteq> conversation_history self
      \<longrightarrow> question \<noteq> [] \<and>
          full_response_for_history (generate_response_stream self run question documents) \<noteq> [] \<and>
          self_after (generate_response_stream self run question documents)
            = add_to_history self question
                (full_response_for_history (generate_response_stream self run question documents)))"
  by (auto simp: generate_response_stream_def Let_def split: option.splits prod.splits if_splits)

theorem history_needs_question_and_answer_witness:
  "self_after (generate_response_stream quiet_bot three_tokens [] six_docs) = quiet_bot \<and>
   full_response_for_history (generate_response_stream quiet_bot three_tokens [] six_docs) \<noteq> [] \<and>
   conversation_history
     (self_after (generate_response_stream quiet_bot three_tokens ''why'' []))
     = [\<lparr>human = ''why'', ai = ''Hello''\<rparr>]"
proof -
  have a: "self_after (generate_response_stream quiet_bot three_tokens [] six_docs) = quiet_bot"
    using history_needs_question_and_answer [of "[]" quiet_bot three_tokens six_docs] by simp
  have b: "full_response_for_history (generate_response_stream quiet_bot three_tokens [] six_docs) \<noteq> []"
    by (simp add: generate_response_stream_def quiet_bot_def three_tokens_def Let_def
        split: prod.splits)
  have f: "full_response_for_history (generate_response_stream quiet_bot three_tokens ''why'' [])
             = ''Hello''"
    by (simp add: generate_response_stream_def quiet_bot_def three_tokens_def Let_def
        collect_sources_def)
  have h: "conversation_history (add_to_history quiet_bot ''why'' ''Hello'')
             = [\<lparr>human = ''why'', ai = ''Hello''\<rparr>]"
    by (simp add: add_to_history_def quiet_bot_def)
  have "conversation_history
          (self_after (generate_response_stream quiet_bot three_tokens ''why'' []))
        \<noteq> conversation_history quiet_bot \<longrightarrow>
        self_after (generate_response_stream quiet_bot three_tokens ''why'' [])
          = add_to_history quiet_bot ''why''
              (full_response_for_history (generate_response_stream quiet_bot three_tokens ''why'' []))"
    using history_needs_question_and_answer [of "''why''" quiet_bot three_tokens "[]"] by blast
  moreover have "conversation_history
          (self_after (generate_response_stream quiet_bot three_tokens ''why'' []))
        \<noteq> conversation_history quiet_bot"
    by (simp add: generate_response_stream_def quiet_bot_def three_tokens_def Let_def
        collect_sources_def add_to_history_def)
  ultimately have c: "conversation_history
     (self_after (generate_response_stream quiet_bot three_tokens ''why'' []))
     = [\<lparr>human = ''why'', ai = ''Hello''\<rparr>]"
    using f h by simp
  show ?thesis using a b c by simp
qed

lemma stream_tokens_eq:
  "stream_tokens full ts = (map TokenEvent (filter (\<lambda>t. t \<noteq> []) ts), full @ concat ts)"
  by (induction ts arbitrary: full) simp_all

lemma collect_sources_fold:
  "fold (\<lambda>doc sources.
           case source doc of
             Some filename_with_ext \<Rightarrow> insert (fst (splitext filename_with_ext)) sources
           | None \<Rightarrow> sources) documents S
   = S \<union> set (map (\<lambda>f. fst (splitext f)) (List.map_filter source documents))"
  by (induction documents arbitrary: S) (auto simp: List.map_filter_simps split: option.splits)

lemma collect_sources_eq:
  "collect_sources documents
   = set (map (\<lambda>f. fst (splitext f)) (List.map_filter source documents))"
  by (simp add: collect_sources_def collect_sources_fold)

lemma source_names_Nil: "source_names documents = [] \<longleftrightarrow> collect_sources documents = {}"
  by (simp add: source_names_def collect_sources_eq)

lemma join_butlast_last:
  "xs \<noteq> [] \<Longrightarrow> join sep xs = concat (map (\<lambda>x. x @ sep) (butlast xs)) @ last xs"
  by (induction sep xs rule: join.induct) simp_all

text \<open>The block of the sources, character by character: two line feeds, a rule, the
  heading, and one line \<^verbatim>\<open>- name\<close> per name, with a line feed between the lines and none
  after the last.\<close>

lemma sources_block_text:
  assumes "names \<noteq> []"
  shows "sources_block names
         = [CHR 0x0A, CHR 0x0A] @ ''---'' @ [CHR 0x0A] @ ''**Sources:**'' @ [CHR 0x0A]
           @ concat (map (\<lambda>s. ''- '' @ s @ [CHR 0x0A]) (butlast names)) @ ''- '' @ last names"
  using assms
  by (simp add: sources_block_def newline_def join_butlast_last map_butlast last_map comp_def)

lemma source_names_set:
  "set (source_names documents)
   = (\<lambda>f. fst (splitext f)) ` {f. \<exists>doc \<in> set documents. source doc = Some f}"
proof -
  have "set (List.map_filter source documents) = {f. \<exists>doc \<in> set documents. source doc = Some f}"
    by (induction documents) (auto split: option.splits)
  moreover have "set (source_names documents)
                 = (\<lambda>f. fst (splitext f)) ` set (List.map_filter source documents)"
    by (simp add: source_names_def)
  ultimately show ?thesis by simp
qed

text \<open>With a bound that is not negative, the turn just added is the last of the history.\<close>

lemma add_to_history_last:
  assumes "0 \<le> max_history_length self"
  shows "conversation_history (add_to_history self q a) \<noteq> []
         \<and> last (conversation_history (add_to_history self q a)) = \<lparr>human = q, ai = a\<rparr>"
  using assms by (auto simp: add_to_history_def slice_from_def Let_def)

text \<open>
  C9. When the bot has its model and tokenizer and generation finishes (no exception
  before or during the streaming), the generator yields one \<^verbatim>\<open>token\<close> event per non-empty
  text, in order, then a single \<^verbatim>\<open>sources\<close> event with the source identifiers of the
  documents, stripped of their file extension, deduplicated and sorted, then \<^verbatim>\<open>end\<close>;
  with no source identifier there is no \<^verbatim>\<open>sources\<close> event. The accumulated answer is
  the streamed text followed, when there is a source identifier, by the block of these
  same identifiers: two line feeds, \<^verbatim>\<open>---\<close>, a line feed, \<^verbatim>\<open>**Sources:**\<close>, a line feed and
  the lines \<^verbatim>\<open>- name\<close> separated by line feeds. For a non-empty question this text is
  committed to the history by one \<^verbatim>\<open>add_to_history\<close>, after which (the bound not being
  negative) the last turn of the history is the question with this text.
\<close>

theorem sources_event_after_tokens:
  assumes "llm_model self" and "llm_tokenizer self"
    and "setup_failure run = None" and "streamer_failure run = None"
  shows "events (generate_response_stream self run question documents)
           = map TokenEvent (filter (\<lambda>t. t \<noteq> []) (streamer_texts run))
             @ (if source_names documents = [] then []
                else [SourcesEvent (source_names documents)])
             @ [EndEvent]
         \<and> full_response_for_history (generate_response_stream self run question documents)
           = concat (streamer_texts run)
             @ (if source_names documents = [] then []
                else [CHR 0x0A, CHR 0x0A] @ ''---'' @ [CHR 0x0A] @ ''**Sources:**'' @ [CHR 0x0A]
                     @ concat (map (\<lambda>s. ''- '' @ s @ [CHR 0x0A]) (butlast (source_names documents)))
                     @ ''- '' @ last (source_names documents))
         \<and> (question \<noteq> [] \<and>
              full_response_for_history (generate_response_stream self run question documents) \<noteq> []
            \<longrightarrow> self_after (generate_response_stream self run question documents)
                = add_to_history self question
                    (full_response_for_history
                       (generate_response_stream self run question documents)))
         \<and> (question \<noteq> [] \<and> 0 \<le> max_history_length self \<and>
              (concat (streamer_texts run) \<noteq> [] \<or> source_names documents \<noteq> [])
            \<longrightarrow> conversation_history
                  (self_after (generate_response_stream self run question documents)) \<noteq> []
                \<and> last (conversation_history
                          (self_after (generate_response_stream self run question documents)))
                  = \<lparr>human = question,
                     ai = full_response_for_history
                            (generate_response_stream self run question documents)\<rparr>)
         \<and> distinct (source_names documents) \<and> sorted (source_names documents)
         \<and> set (source_names documents)
           = (\<lambda>f. fst (splitext f)) ` {f. \<exists>doc \<in> set documents. source doc = Some f}"
proof -
  let ?r = "generate_response_stream self run question documents"
  let ?names = "source_names documents"
  have n: "sorted_list_of_set (collect_sources documents) = ?names"
    by (simp add: source_names_def collect_sources_eq)
  have e: "collect_sources documents = {} \<longleftrightarrow> ?names = []"
    using source_names_Nil [of documents] by simp
  have ev: "events ?r
            = map TokenEvent (filter (\<lambda>t. t \<noteq> []) (streamer_texts run))
              @ (if ?names = [] then [] else [SourcesEvent ?names]) @ [EndEvent]"
    using assms n e by (simp add: generate_response_stream_def stream_tokens_eq Let_def)
  have fb: "full_response_for_history ?r
            = concat (streamer_texts run) @ (if ?names = [] then [] else sources_block ?names)"
    using assms n e by (simp add: generate_response_stream_def stream_tokens_eq Let_def)
  have fu: "full_response_for_history ?r
            = concat (streamer_texts run)
              @ (if ?names = [] then []
                 else [CHR 0x0A, CHR 0x0A] @ ''---'' @ [CHR 0x0A] @ ''**Sources:**'' @ [CHR 0x0A]
                      @ concat (map (\<lambda>s. ''- '' @ s @ [CHR 0x0A]) (butlast ?names))
                      @ ''- '' @ last ?names)"
    using fb sources_block_text [of ?names] by (cases "?names = []") simp_all
  have af: "question \<noteq> [] \<and> full_response_for_history ?r \<noteq> []
            \<longrightarrow> self_after ?r = add_to_history self question (full_response_for_history ?r)"
    using assms by (simp add: generate_response_stream_def stream_tokens_eq Let_def)
  have ne: "concat (streamer_texts run) \<noteq> [] \<or> ?names \<noteq> [] \<Longrightarrow> full_response_for_history ?r \<noteq> []"
    using fu by (cases "?names = []") simp_all
  have la: "question \<noteq> [] \<and> 0 \<le> max_history_length self \<and>
              (concat (streamer_texts run) \<noteq> [] \<or> ?names \<noteq> [])
            \<longrightarrow> conversation_history (self_after ?r) \<noteq> []
                \<and> last (conversation_history (self_after ?r))
                  = \<lparr>human = question, ai = full_response_for_history ?r\<rparr>"
    using af ne add_to_history_last [of self question "full_response_for_history ?r"] by auto
  have ds: "distinct ?names" "sorted ?names"
    by (simp_all add: source_names_def)
  show ?thesis
    by (intro conjI) (fact ev fu af la ds source_names_set)+
qed

lemma splitext_examples:
  "fst (splitext ''notes.md'') = ''notes''" "fst (splitext ''guide.pdf'') = ''guide''"
  "fst (splitext ''guide.txt'') = ''guide''"
  by (simp_all add: splitext_def rfind_def Let_def)

lemma source_names_cited: "source_names cited_docs = [''guide'', ''notes'']"
  by (simp add: source_names_def cited_docs_def doc_of_def List.map_filter_simps
      splitext_examples sorted_list_of_set_sort_remdups)

theorem sources_event_after_tokens_witness:
  "events (generate_response_stream quiet_bot three_tokens ''why'' cited_docs)
     = [TokenEvent ''Hel'', TokenEvent ''lo'', SourcesEvent [''guide'', ''notes''], EndEvent]
   \<and> full_response_for_history (generate_response_stream quiet_bot three_tokens ''why'' cited_docs)
     = ''Hello'' @ [CHR 0x0A, CHR 0x0A] @ ''---'' @ [CHR 0x0A] @ ''**Sources:**'' @ [CHR 0x0A]
         @ ''- guide'' @ [CHR 0x0A] @ ''- notes''
   \<and> conversation_history
       (self_after (generate_response_stream quiet_bot three_tokens ''why'' cited_docs))
     = [\<lparr>human = ''why'',
         ai = ''Hello'' @ [CHR 0x0A, CHR 0x0A] @ ''---'' @ [CHR 0x0A] @ ''**Sources:**''
                @ [CHR 0x0A] @ ''- guide'' @ [CHR 0x0A] @ ''- notes''\<rparr>]
   \<and> events (generate_response_stream quiet_bot three_tokens ''why'' [])
     = [TokenEvent ''Hel'', TokenEvent ''lo'', EndEvent]
   \<and> full_response_for_history (generate_response_stream quiet_bot three_tokens ''why'' [])
     = ''Hello''"
proof -
  let ?r = "generate_response_stream quiet_bot three_tokens ''why'' cited_docs"
  let ?text = "''Hello'' @ [CHR 0x0A, CHR 0x0A] @ ''---'' @ [CHR 0x0A] @ ''**Sources:**''
                 @ [CHR 0x0A] @ ''- guide'' @ [CHR 0x0A] @ ''- notes''"
  have a: "llm_model quiet_bot" "llm_tokenizer quiet_bot" by (simp_all add: quiet_bot_def)
  have b: "setup_failure three_tokens = None" "streamer_failure three_tokens = None"
    "streamer_texts three_tokens = [''Hel'', [], ''lo'']"
    by (simp_all add: three_tokens_def)
  have c: "source_names [] = []" by (simp add: source_names_def)
  note cited = sources_event_after_tokens [OF a b(1,2), of "''why''" cited_docs]
  note plain = sources_event_after_tokens [OF a b(1,2), of "''why''" "[]"]
  have ev: "events ?r
            = [TokenEvent ''Hel'', TokenEvent ''lo'', SourcesEvent [''guide'', ''notes''], EndEvent]"
    using cited b(3) source_names_cited by simp
  have fu: "full_response_for_history ?r = ?text"
    using cited b(3) source_names_cited by simp
  have "self_after ?r = add_to_history quiet_bot ''why'' ?text"
    using cited fu by simp
  then have hi: "conversation_history (self_after ?r) = [\<lparr>human = ''why'', ai = ?text\<rparr>]"
    by (simp add: add_to_history_def quiet_bot_def)
  have ev': "events (generate_response_stream quiet_bot three_tokens ''why'' [])
             = [TokenEvent ''Hel'', TokenEvent ''lo'', EndEvent]"
    using plain b(3) c by simp
  have fu': "full_response_for_history (generate_response_stream quiet_bot three_tokens ''why'' [])
             = ''Hello''"
    using plain b(3) c by simp
  show ?thesis
    by (intro conjI) (fact ev fu hi ev' fu')+
qed

section \<open>The streaming session proxy\<close>

lemma startswith_iff: "startswith s p \<longleftrightarrow> (\<exists>t. s = p @ t)"
  unfolding startswith_def
  by (metis append_eq_conv_conj append_take_drop_id)

lemma event_kinds_exclusive:
  "startswith c ''event: end'' \<Longrightarrow> \<not> startswith c ''event: token''"
  "startswith c ''event: end'' \<Longrightarrow> \<not> startswith c ''event: sources''"
  "startswith c ''event: end'' \<Longrightarrow> \<not> startswith c ''event: error''"
  "startswith c ''event: error'' \<Longrightarrow> \<not> startswith c ''event: token''"
  "startswith c ''event: error'' \<Longrightarrow> \<not> startswith c ''event: sources''"
  by (auto simp: startswith_iff)

lemma fst_prepend: "fst (case p of (outs', r) \<Rightarrow> (f outs', r)) = f (fst p)"
  by (cases p) simp

lemma snd_prepend: "snd (case p of (outs', r) \<Rightarrow> (f outs', r)) = snd p"
  by (cases p) simp

lemma proxy_loop_yields:
  "fst (proxy_loop env t full err chunks) = paced t (forwarded chunks)"
proof (induction chunks arbitrary: t full err)
  case Nil
  then show ?case by simp
next
  case (Cons a rest)
  show ?case
    by (simp add: Let_def keep_alive_def event_kinds_exclusive fst_prepend Cons.IH
        split: sum.splits)
qed

lemma proxy_loop_error:
  "fst (snd (snd (proxy_loop env t full err chunks))) = (err \<or> error_chunk_seen chunks)"
proof (induction chunks arbitrary: t full err)
  case Nil
  then show ?case by simp
next
  case (Cons a rest)
  show ?case
    by (auto simp: Let_def event_kinds_exclusive snd_prepend Cons.IH split: sum.splits)
qed

lemma proxy_loop_broke:
  "snd (snd (snd (proxy_loop env t full err chunks))) = end_chunk_seen chunks"
proof (induction chunks arbitrary: t full err)
  case Nil
  then show ?case by (simp add: end_chunk_seen_def)
next
  case (Cons a rest)
  show ?case
    using Cons.IH
    by (auto simp: Let_def end_chunk_seen_def event_kinds_exclusive snd_prepend split: sum.splits)
qed


lemma finally_block_yielded:
  "yielded (finally_block env outs i full err) = outs @ (if \<not> err then [EndOut] else [])"
  by (simp add: finally_block_def Let_def)

lemma paced_no_end_event:
  "\<not> end_chunk_seen chunks \<Longrightarrow> filter is_end_event (paced t (forwarded chunks)) = []"
  by (induction chunks arbitrary: t) (auto simp: end_chunk_seen_def)

text \<open>
  C7. In a session whose upstream answers 200, the generator yields the \<^verbatim>\<open>init\<close> event,
  then the forwarded chunks, each preceded by a keep-alive line \<^verbatim>\<open>: ping <unix_ts>\<close>
  exactly when more than 15 seconds passed between the last activity and the chunk's
  arrival (the clock readings of the loop), and nothing after them is a keep-alive line.
  So a gap of more than 15 seconds has a keep-alive line before forwarding resumes, and
  a gap of 10 seconds or less has none.
\<close>

theorem keep_alive_timing:
  "(\<exists>trailer.
      yielded (rag_service_sse_proxy_generator env t_init (Response 200 body chunks fin) interaction)
        = Init (interaction_id interaction) # paced t_init (forwarded chunks) @ trailer
      \<and> (\<forall>out \<in> set trailer. \<forall>n. out \<noteq> KeepAlive n))
   \<and> (current_time a - last_activity_time > 15 \<longrightarrow>
        paced last_activity_time (a # rest)
          = KeepAlive (py_int (current_time a)) # Forward (chunk a)
              # paced (time_after_yield a) rest)
   \<and> (current_time a - last_activity_time \<le> 10 \<longrightarrow>
        paced last_activity_time (a # rest)
          = Forward (chunk a) # paced (time_after_yield a) rest)"
proof -
  obtain outs full err broke where l: "proxy_loop env t_init [] False chunks = (outs, full, err, broke)"
    by (cases "proxy_loop env t_init [] False chunks") auto
  have o: "outs = paced t_init (forwarded chunks)"
    using proxy_loop_yields [of env t_init "[]" False chunks] l by simp
  have "\<exists>trailer.
      yielded (rag_service_sse_proxy_generator env t_init (Response 200 body chunks fin) interaction)
        = Init (interaction_id interaction) # paced t_init (forwarded chunks) @ trailer
      \<and> (\<forall>out \<in> set trailer. \<forall>n. out \<noteq> KeepAlive n)"
  proof (cases "\<exists>e. fin = StreamRaises e \<and> \<not> broke")
    case True
    then obtain e where "fin = StreamRaises e" "\<not> broke" by auto
    then have "yielded (rag_service_sse_proxy_generator env t_init (Response 200 body chunks fin) interaction)
        = Init (interaction_id interaction) # paced t_init (forwarded chunks)
          @ [ErrorOut (CaughtError e) (interaction_id interaction), EndOut]"
      using l o by (simp add: rag_service_sse_proxy_generator_def handler_def finally_block_yielded)
    then show ?thesis by auto
  next
    case False
    then have "yielded (rag_service_sse_proxy_generator env t_init (Response 200 body chunks fin) interaction)
        = Init (interaction_id interaction) # paced t_init (forwarded chunks)
          @ (if \<not> err then [EndOut] else [])"
      using l o
      by (cases fin) (auto simp: rag_service_sse_proxy_generator_def finally_block_yielded)
    then show ?thesis by auto
  qed
  then show ?thesis by simp
qed

lemma yielded_stream_ends:
  "yielded (rag_service_sse_proxy_generator env t (Response 200 body chunks StreamEnds) i)
   = Init (interaction_id i) # paced t (forwarded chunks)
       @ (if error_chunk_seen chunks then [] else [EndOut])"
proof -
  obtain outs full err broke where l: "proxy_loop env t [] False chunks = (outs, full, err, broke)"
    by (cases "proxy_loop env t [] False chunks") auto
  have "outs = paced t (forwarded chunks)"
    using proxy_loop_yields [of env t "[]" False chunks] l by simp
  moreover have "err = error_chunk_seen chunks"
    using proxy_loop_error [of env t "[]" False chunks] l by simp
  ultimately show ?thesis
    using l by (simp add: rag_service_sse_proxy_generator_def finally_block_yielded)
qed

theorem keep_alive_timing_witness:
  "yielded (rag_service_sse_proxy_generator fixed_json 0
             (Response 200 (Inr []) slow_stream StreamEnds) fresh_interaction)
   = [Init ''42'', Forward token_chunk, KeepAlive 21, Forward token_chunk, Forward end_chunk, EndOut]"
proof -
  have f: "forwarded slow_stream = slow_stream"
    by (simp add: slow_stream_def token_chunk_def end_chunk_def startswith_def)
  have e: "\<not> error_chunk_seen slow_stream"
    by (simp add: slow_stream_def token_chunk_def end_chunk_def startswith_def)
  have p: "paced 0 slow_stream
           = [Forward token_chunk, KeepAlive 21, Forward token_chunk, Forward end_chunk]"
    by (simp add: slow_stream_def py_int_def)
  from keep_alive_timing [of fixed_json 0 "Inr []" slow_stream StreamEnds fresh_interaction]
  obtain trailer where
    "yielded (rag_service_sse_proxy_generator fixed_json 0
             (Response 200 (Inr []) slow_stream StreamEnds) fresh_interaction)
     = Init (interaction_id fresh_interaction) # paced 0 (forwarded slow_stream) @ trailer"
    by blast
  then show ?thesis
    using f p e yielded_stream_ends [of fixed_json 0 "Inr []" slow_stream fresh_interaction]
    by (simp add: fresh_interaction_def)
qed

lemma finally_block_fields:
  "save_calls (finally_block env outs i full err) = (if has_save i then 1 else 0)"
  "error_occurred (finally_block env outs i full err) = err"
  "full_response_text (finally_block env outs i full err) = full"
  "final_response_text (interaction_after (finally_block env outs i full err))
     = (if full \<noteq> [] \<and> \<not> err \<and> has_final_response_text i then Some full
        else final_response_text i)"
  "stored (finally_block env outs i full err)
     = (if has_save i \<and> save_failure env = None
        then Some (interaction_after (finally_block env outs i full err)) else None)"
  by (auto simp: finally_block_def Let_def)

lemma finally_block_interaction:
  "interaction_after (finally_block env outs i full err)
   = (if full \<noteq> [] \<and> \<not> err \<and> has_final_response_text i
      then i\<lparr>final_response_text := Some full\<rparr> else i)"
  by (simp add: finally_block_def Let_def)

text \<open>
  C8. A session calls \<^verbatim>\<open>interaction.save()\<close> once (for an interaction that has the
  method). It counts as failed exactly when the request raised, the status was not 200,
  the upstream sent an \<^verbatim>\<open>error\<close> event or the body raised before an \<^verbatim>\<open>end\<close> event. The
  accumulated text becomes \<^verbatim>\<open>final_response_text\<close> exactly when it is non-empty and the
  session did not fail; after a failed session the field is what it was. The one save
  stores the interaction as the session left it, whenever the interaction has the method
  and the save returns, and nothing is stored otherwise. So after a session that did not
  fail and gathered text, the stored record holds that text; after a failed session, or
  one without text, a stored record holds the text the interaction had before.
\<close>

theorem response_text_saved_once_unless_failed:
  "save_calls (rag_service_sse_proxy_generator env t_init up interaction)
     = (if has_save interaction then 1 else 0)
   \<and> error_occurred (rag_service_sse_proxy_generator env t_init up interaction)
     = session_failed up
   \<and> final_response_text
       (interaction_after (rag_service_sse_proxy_generator env t_init up interaction))
     = (if full_response_text (rag_service_sse_proxy_generator env t_init up interaction) \<noteq> []
           \<and> \<not> session_failed up \<and> has_final_response_text interaction
        then Some (full_response_text (rag_service_sse_proxy_generator env t_init up interaction))
        else final_response_text interaction)
   \<and> (session_failed up \<longrightarrow>
        final_response_text
          (interaction_after (rag_service_sse_proxy_generator env t_init up interaction))
        = final_response_text interaction)
   \<and> stored (rag_service_sse_proxy_generator env t_init up interaction)
     = (if has_save interaction \<and> save_failure env = None
        then Some (interaction_after (rag_service_sse_proxy_generator env t_init up interaction))
        else None)
   \<and> (has_save interaction \<and> save_failure env = None \<and> has_final_response_text interaction \<and>
      \<not> session_failed up \<and>
      full_response_text (rag_service_sse_proxy_generator env t_init up interaction) \<noteq> []
      \<longrightarrow> map_option final_response_text
            (stored (rag_service_sse_proxy_generator env t_init up interaction))
          = Some (Some (full_response_text
                          (rag_service_sse_proxy_generator env t_init up interaction))))
   \<and> (has_save interaction \<and> save_failure env = None \<and>
      (session_failed up \<or>
       full_response_text (rag_service_sse_proxy_generator env t_init up interaction) = [])
      \<longrightarrow> map_option final_response_text
            (stored (rag_service_sse_proxy_generator env t_init up interaction))
          = Some (final_response_text interaction))"
proof -
  let ?r = "rag_service_sse_proxy_generator env t_init up interaction"
  have main: "save_calls ?r = (if has_save interaction then 1 else 0)
        \<and> error_occurred ?r = session_failed up
        \<and> final_response_text (interaction_after ?r)
             = (if full_response_text ?r \<noteq> [] \<and> \<not> session_failed up
                   \<and> has_final_response_text interaction
                then Some (full_response_text ?r) else final_response_text interaction)
        \<and> stored ?r
             = (if has_save interaction \<and> save_failure env = None
                then Some (interaction_after ?r) else None)"
  proof (cases up)
    case (ConnectRaises e)
    then show ?thesis
      by (simp add: rag_service_sse_proxy_generator_def handler_def finally_block_fields)
  next
    case (Response status_code body chunks fin)
    obtain outs full err broke where l: "proxy_loop env t_init [] False chunks = (outs, full, err, broke)"
      by (cases "proxy_loop env t_init [] False chunks") auto
    have e: "err = error_chunk_seen chunks"
      using proxy_loop_error [of env t_init "[]" False chunks] l by simp
    have b: "broke = end_chunk_seen chunks"
      using proxy_loop_broke [of env t_init "[]" False chunks] l by simp
    show ?thesis
    proof (cases "status_code = 200")
      case False
      then show ?thesis using Response
        by (cases body)
          (simp_all add: rag_service_sse_proxy_generator_def handler_def finally_block_fields)
    next
      case True
      then show ?thesis using Response l e b
        by (cases fin)
          (auto simp: rag_service_sse_proxy_generator_def handler_def finally_block_fields)
    qed
  qed
  have sc: "save_calls ?r = (if has_save interaction then 1 else 0)"
    using main by (elim conjE)
  have eo: "error_occurred ?r = session_failed up"
    using main by (elim conjE)
  have ft: "final_response_text (interaction_after ?r)
             = (if full_response_text ?r \<noteq> [] \<and> \<not> session_failed up
                   \<and> has_final_response_text interaction
                then Some (full_response_text ?r) else final_response_text interaction)"
    using main by (elim conjE)
  have st: "stored ?r
             = (if has_save interaction \<and> save_failure env = None
                then Some (interaction_after ?r) else None)"
    using main by (elim conjE)
  have un: "session_failed up \<longrightarrow>
            final_response_text (interaction_after ?r) = final_response_text interaction"
    using ft by simp
  have kept: "has_save interaction \<and> save_failure env = None \<and> has_final_response_text interaction \<and>
              \<not> session_failed up \<and> full_response_text ?r \<noteq> []
              \<longrightarrow> map_option final_response_text (stored ?r) = Some (Some (full_response_text ?r))"
    using ft st by simp
  have left: "has_save interaction \<and> save_failure env = None \<and>
              (session_failed up \<or> full_response_text ?r = [])
              \<longrightarrow> map_option final_response_text (stored ?r) = Some (final_response_text interaction)"
    using ft st by auto
  show ?thesis
    by (intro conjI) (fact sc eo ft un st kept left)+
qed

lemma token_chunk_starts:
  "startswith token_chunk ''event: token''" "\<not> startswith token_chunk ''event: end''"
  by (simp_all add: token_chunk_def startswith_def)

lemma error_chunk_starts:
  "\<not> startswith error_chunk ''event: token''" "\<not> startswith error_chunk ''event: sources''"
  "startswith error_chunk ''event: error''" "\<not> startswith error_chunk ''event: end''"
  by (simp_all add: error_chunk_def startswith_def)

lemma end_chunk_starts:
  "\<not> startswith end_chunk ''event: token''" "\<not> startswith end_chunk ''event: sources''"
  "\<not> startswith end_chunk ''event: error''" "startswith end_chunk ''event: end''"
  by (simp_all add: end_chunk_def startswith_def)

lemma token_text_fixed:
  "token_text fixed_json token_chunk = Inr ''Hi''"
  "token_text failing_save token_chunk = Inr ''Hi''"
  by (simp_all add: token_text_def data_field_def data_line_of_def strip_def is_space_def
      token_chunk_def newline_def startswith_def fixed_json_def failing_save_def dict_get_def)

lemma slow_stream_loop:
  "proxy_loop fixed_json 0 [] False slow_stream
   = ([Forward token_chunk, KeepAlive 21, Forward token_chunk, Forward end_chunk],
      ''HiHi'', False, True)"
  by (simp add: slow_stream_def token_chunk_starts end_chunk_starts token_text_fixed
      keep_alive_def py_int_def)

lemma slow_stream_loop_failing_save:
  "proxy_loop failing_save 0 [] False slow_stream
   = ([Forward token_chunk, KeepAlive 21, Forward token_chunk, Forward end_chunk],
      ''HiHi'', False, True)"
  by (simp add: slow_stream_def token_chunk_starts end_chunk_starts token_text_fixed
      keep_alive_def py_int_def)

lemma failed_stream_loop:
  "proxy_loop fixed_json 0 [] False failed_stream
   = ([Forward token_chunk, Forward error_chunk, Forward end_chunk], ''Hi'', True, True)"
  by (simp add: failed_stream_def token_chunk_starts error_chunk_starts end_chunk_starts
      token_text_fixed keep_alive_def)

theorem response_text_saved_once_unless_failed_witness:
  "full_response_text
     (rag_service_sse_proxy_generator fixed_json 0
        (Response 200 (Inr []) slow_stream StreamEnds) fresh_interaction) = ''HiHi''
   \<and> stored
       (rag_service_sse_proxy_generator fixed_json 0
          (Response 200 (Inr []) slow_stream StreamEnds) fresh_interaction)
     = Some (fresh_interaction\<lparr>final_response_text := Some ''HiHi''\<rparr>)
   \<and> save_calls
       (rag_service_sse_proxy_generator fixed_json 0
          (Response 200 (Inr []) slow_stream StreamEnds) fresh_interaction) = 1
   \<and> full_response_text
       (rag_service_sse_proxy_generator fixed_json 0
          (Response 200 (Inr []) failed_stream StreamEnds) fresh_interaction) = ''Hi''
   \<and> session_failed (Response 200 (Inr []) failed_stream StreamEnds)
   \<and> stored
       (rag_service_sse_proxy_generator fixed_json 0
          (Response 200 (Inr []) failed_stream StreamEnds) fresh_interaction)
     = Some fresh_interaction
   \<and> session_failed (Response 500 (Inr ''down'') [] StreamEnds)
   \<and> stored
       (rag_service_sse_proxy_generator fixed_json 0
          (Response 500 (Inr ''down'') [] StreamEnds) fresh_interaction)
     = Some (fresh_interaction\<lparr>error_message := Some (ServiceStatusError 500 ''down'')\<rparr>)
   \<and> full_response_text
       (rag_service_sse_proxy_generator failing_save 0
          (Response 200 (Inr []) slow_stream StreamEnds) fresh_interaction) = ''HiHi''
   \<and> save_calls
       (rag_service_sse_proxy_generator failing_save 0
          (Response 200 (Inr []) slow_stream StreamEnds) fresh_interaction) = 1
   \<and> stored
       (rag_service_sse_proxy_generator failing_save 0
          (Response 200 (Inr []) slow_stream StreamEnds) fresh_interaction) = None"
proof -
  let ?ok = "rag_service_sse_proxy_generator fixed_json 0
               (Response 200 (Inr []) slow_stream StreamEnds) fresh_interaction"
  let ?err = "rag_service_sse_proxy_generator fixed_json 0
               (Response 200 (Inr []) failed_stream StreamEnds) fresh_interaction"
  let ?down = "rag_service_sse_proxy_generator fixed_json 0
               (Response 500 (Inr ''down'') [] StreamEnds) fresh_interaction"
  let ?lost = "rag_service_sse_proxy_generator failing_save 0
               (Response 200 (Inr []) slow_stream StreamEnds) fresh_interaction"
  note ok = response_text_saved_once_unless_failed
              [of fixed_json 0 "Response 200 (Inr []) slow_stream StreamEnds" fresh_interaction]
  note err = response_text_saved_once_unless_failed
              [of fixed_json 0 "Response 200 (Inr []) failed_stream StreamEnds" fresh_interaction]
  note down = response_text_saved_once_unless_failed
              [of fixed_json 0 "Response 500 (Inr ''down'') [] StreamEnds" fresh_interaction]
  note lost = response_text_saved_once_unless_failed
              [of failing_save 0 "Response 200 (Inr []) slow_stream StreamEnds" fresh_interaction]
  have h: "has_final_response_text fresh_interaction" "has_save fresh_interaction"
    "final_response_text fresh_interaction = None"
    by (simp_all add: fresh_interaction_def)
  have s: "save_failure fixed_json = None" "save_failure failing_save \<noteq> None"
    by (simp_all add: fixed_json_def failing_save_def)
  have full_ok: "full_response_text ?ok = ''HiHi''"
    by (simp add: rag_service_sse_proxy_generator_def slow_stream_loop finally_block_fields)
  have after_ok: "interaction_after ?ok = fresh_interaction\<lparr>final_response_text := Some ''HiHi''\<rparr>"
    by (simp add: rag_service_sse_proxy_generator_def slow_stream_loop finally_block_interaction h)
  have stored_ok: "stored ?ok = Some (fresh_interaction\<lparr>final_response_text := Some ''HiHi''\<rparr>)"
    using ok h s after_ok by simp
  have calls_ok: "save_calls ?ok = 1"
    using ok h by simp
  have full_err: "full_response_text ?err = ''Hi''"
    by (simp add: rag_service_sse_proxy_generator_def failed_stream_loop finally_block_fields)
  have failed_err: "session_failed (Response 200 (Inr []) failed_stream StreamEnds)"
    by (simp add: failed_stream_def token_chunk_starts error_chunk_starts event_kinds_exclusive)
  have after_err: "interaction_after ?err = fresh_interaction"
    by (simp add: rag_service_sse_proxy_generator_def failed_stream_loop finally_block_interaction)
  have stored_err: "stored ?err = Some fresh_interaction"
    using err h s after_err by simp
  have failed_down: "session_failed (Response 500 (Inr ''down'') [] StreamEnds)" by simp
  have after_down: "interaction_after ?down
                    = fresh_interaction\<lparr>error_message := Some (ServiceStatusError 500 ''down'')\<rparr>"
    by (simp add: rag_service_sse_proxy_generator_def finally_block_interaction)
  have stored_down: "stored ?down
                    = Some (fresh_interaction\<lparr>error_message := Some (ServiceStatusError 500 ''down'')\<rparr>)"
    using down h s after_down by simp
  have full_lost: "full_response_text ?lost = ''HiHi''"
    by (simp add: rag_service_sse_proxy_generator_def slow_stream_loop_failing_save
        finally_block_fields)
  have calls_lost: "save_calls ?lost = 1"
    using lost h by simp
  have stored_lost: "stored ?lost = None"
    using lost h s by simp
  show ?thesis
    by (intro conjI)
      (fact full_ok stored_ok calls_ok full_err failed_err stored_err failed_down stored_down
         full_lost calls_lost stored_lost)+
qed

text \<open>
  C1. Every session yields exactly one \<^verbatim>\<open>end\<close> event, and yields it last. The code does
  not keep this: after a status other than 200 it yields \<^verbatim>\<open>init\<close> and \<^verbatim>\<open>error\<close> and no
  \<^verbatim>\<open>end\<close> event at all (the \<^verbatim>\<open>return\<close> leaves \<^verbatim>\<open>error_occurred\<close> set, and the
  \<^verbatim>\<open>finally\<close> block then yields nothing); and in a clean session it forwards the
  upstream's \<^verbatim>\<open>end\<close> event and then yields its own.
\<close>

theorem end_event_missing_or_doubled:
  "yielded (rag_service_sse_proxy_generator fixed_json 0
              (Response 500 (Inr ''down'') [] StreamEnds) fresh_interaction)
     = [Init ''42'', ErrorOut (ServiceStatusError 500 ''down'') ''42'']
   \<and> filter is_end_event
        (yielded (rag_service_sse_proxy_generator fixed_json 0
                    (Response 500 (Inr ''down'') [] StreamEnds) fresh_interaction)) = []
   \<and> filter is_end_event
        (yielded (rag_service_sse_proxy_generator fixed_json 0
                    (Response 200 (Inr []) slow_stream StreamEnds) fresh_interaction))
     = [Forward end_chunk, EndOut]"
  by (simp add: rag_service_sse_proxy_generator_def finally_block_yielded slow_stream_loop
      fresh_interaction_def token_chunk_starts end_chunk_starts)

text \<open>A session that an exception ends yields one \<^verbatim>\<open>end\<close> event, and yields it last.\<close>

lemma handler_one_end:
  assumes "filter is_end_event outs = []"
  shows "filter is_end_event (yielded (handler env e outs i full)) = [EndOut]
         \<and> last (yielded (handler env e outs i full)) = EndOut"
  using assms by (simp add: handler_def finally_block_yielded)

lemma exception_paths_one_end:
  assumes "up = ConnectRaises e \<or>
           (\<exists>status_code chunks fin. status_code \<noteq> 200 \<and> up = Response status_code (Inl e) chunks fin) \<or>
           (\<exists>body chunks. \<not> end_chunk_seen chunks \<and> up = Response 200 body chunks (StreamRaises e))"
  shows "filter is_end_event (yielded (rag_service_sse_proxy_generator env t up i)) = [EndOut]
         \<and> last (yielded (rag_service_sse_proxy_generator env t up i)) = EndOut"
proof -
  consider (a) "up = ConnectRaises e"
    | (b) status_code chunks fin where "status_code \<noteq> 200" "up = Response status_code (Inl e) chunks fin"
    | (c) body chunks where "\<not> end_chunk_seen chunks" "up = Response 200 body chunks (StreamRaises e)"
    using assms by blast
  then show ?thesis
  proof cases
    case a
    then show ?thesis
      using handler_one_end [of "[Init (interaction_id i)]" env e i "[]"]
      by (simp add: rag_service_sse_proxy_generator_def)
  next
    case b
    then show ?thesis
      using handler_one_end [of "[Init (interaction_id i)]" env e i "[]"]
      by (simp add: rag_service_sse_proxy_generator_def)
  next
    case c
    obtain outs full err broke where l: "proxy_loop env t [] False chunks = (outs, full, err, broke)"
      by (cases "proxy_loop env t [] False chunks") auto
    have o: "outs = paced t (forwarded chunks)"
      using proxy_loop_yields [of env t "[]" False chunks] l by simp
    have b: "\<not> broke"
      using proxy_loop_broke [of env t "[]" False chunks] l c(1) by simp
    have "filter is_end_event (Init (interaction_id i) # outs) = []"
      using o paced_no_end_event [OF c(1)] by simp
    then show ?thesis
      using handler_one_end [of "Init (interaction_id i) # outs" env e i full] c(2) l b
      by (simp add: rag_service_sse_proxy_generator_def)
  qed
qed

end
